theory Spec2Isabelle
  imports Main "HOL-Library.Word" "HOL-Library.Sublist"
begin

section \<open>Gmail folder filter (src/internal/sync/gmail_filter.go, package config in src/internal/config/config.go)\<close>

text \<open>
  Go strings are byte sequences; they are modelled as \<open>string\<close> (a list of 8-bit
  characters). The optional booleans of the configuration (\<open>*bool\<close>) are
  \<open>bool option\<close>, with \<open>None\<close> for the nil pointer.
\<close>

record GmailConfig =
  Enabled :: "bool option"
  SkipAllMail :: "bool option"
  FetchLabels :: "bool option"
  ExcludeFolders :: "string list"
  IncludeFolders :: "string list"

definition IsEnabled :: "GmailConfig \<Rightarrow> bool" where
  "IsEnabled g = (case Enabled g of None \<Rightarrow> True | Some b \<Rightarrow> b)"

definition ShouldSkipAllMail :: "GmailConfig \<Rightarrow> bool" where
  "ShouldSkipAllMail g = (case SkipAllMail g of None \<Rightarrow> True | Some b \<Rightarrow> b)"

definition ShouldFetchLabels :: "GmailConfig \<Rightarrow> bool" where
  "ShouldFetchLabels g = (case FetchLabels g of None \<Rightarrow> True | Some b \<Rightarrow> b)"

definition IsGmailAllMail :: "string \<Rightarrow> bool" where
  "IsGmailAllMail name = (name = ''[Gmail]/All Mail'' \<or> name = ''[Google Mail]/All Mail'')"

record GmailFilter =
  config :: GmailConfig
  isGmail :: bool
  enabled :: bool

definition NewGmailFilter :: "GmailConfig \<Rightarrow> bool \<Rightarrow> GmailFilter" where
  "NewGmailFilter cfg isGm =
     \<lparr>config = cfg, isGmail = isGm, enabled = (IsEnabled cfg \<and> isGm)\<rparr>"

text \<open>
  The loop \<open>for i, c := range pattern\<close> of \<open>simpleWildcardMatch\<close>: the byte index of
  the first \<open>*\<close>, or \<open>-1\<close>. (The loop decodes runes, but \<open>*\<close> is ASCII and no byte
  of a multi-byte or invalid sequence equals it, so the first rune \<open>*\<close> is the first
  byte \<open>*\<close>.)
\<close>

fun findStar :: "nat \<Rightarrow> string \<Rightarrow> int" where
  "findStar i [] = -1"
| "findStar i (c # cs) = (if c = CHR ''*'' then int i else findStar (Suc i) cs)"

definition simpleWildcardMatch :: "string \<Rightarrow> string \<Rightarrow> bool" where
  "simpleWildcardMatch pattern str =
     (if pattern = str then True
      else let starIdx = findStar 0 pattern in
        if starIdx = -1 then False
        else let pre = take (nat starIdx) pattern in
          if length str < length pre \<or> take (length pre) str \<noteq> pre then False
          else if starIdx = int (length pattern) - 1 then True
          else let suf = drop (nat (starIdx + 1)) pattern in
            length str \<ge> length suf \<and> drop (length str - length suf) str = suf)"

definition matchesPattern :: "string \<Rightarrow> string \<Rightarrow> bool" where
  "matchesPattern mailbox pattern =
     (if mailbox = pattern then True else simpleWildcardMatch pattern mailbox)"

fun matchesAnyPattern :: "string \<Rightarrow> string list \<Rightarrow> bool" where
  "matchesAnyPattern mailbox [] = False"
| "matchesAnyPattern mailbox (pattern # patterns) =
     (if matchesPattern mailbox pattern then True else matchesAnyPattern mailbox patterns)"

definition ShouldSkipMailbox :: "GmailFilter \<Rightarrow> string \<Rightarrow> bool" where
  "ShouldSkipMailbox f mailbox =
     (if \<not> enabled f then False
      else if length (IncludeFolders (config f)) > 0
        then \<not> matchesAnyPattern mailbox (IncludeFolders (config f))
      else if ShouldSkipAllMail (config f) \<and> IsGmailAllMail mailbox then True
      else if length (ExcludeFolders (config f)) > 0
        then matchesAnyPattern mailbox (ExcludeFolders (config f))
      else False)"

fun FilterMailboxes_loop :: "GmailFilter \<Rightarrow> string list \<Rightarrow> string list \<Rightarrow> string list" where
  "FilterMailboxes_loop f filtered [] = filtered"
| "FilterMailboxes_loop f filtered (mailbox # rest) =
     FilterMailboxes_loop f
       (if \<not> ShouldSkipMailbox f mailbox then filtered @ [mailbox] else filtered) rest"

definition FilterMailboxes :: "GmailFilter \<Rightarrow> string list \<Rightarrow> string list" where
  "FilterMailboxes f mailboxes =
     (if \<not> enabled f then mailboxes else FilterMailboxes_loop f [] mailboxes)"

section \<open>INBOX priority (package sync, src/unnamed/part_004)\<close>

text \<open>The search loop of \<open>prioritizeInbox\<close>: index of the first \<open>INBOX\<close>, or \<open>-1\<close>.\<close>

fun inboxIndex :: "nat \<Rightarrow> string list \<Rightarrow> int" where
  "inboxIndex i [] = -1"
| "inboxIndex i (mailbox # rest) =
     (if mailbox = ''INBOX'' then int i else inboxIndex (Suc i) rest)"

definition prioritizeInbox :: "string list \<Rightarrow> string list" where
  "prioritizeInbox mailboxes =
     (if length mailboxes = 0 then mailboxes
      else let idx = inboxIndex 0 mailboxes in
        if idx = -1 \<or> idx = 0 then mailboxes
        else [''INBOX''] @ take (nat idx) mailboxes @ drop (nat (idx + 1)) mailboxes)"

section \<open>Gmail label extraction (package imap, src/unnamed/part_006)\<close>

definition isStandardIMAPFlag :: "string \<Rightarrow> bool" where
  "isStandardIMAPFlag flag =
     (flag \<in> set [[CHR 0x5C] @ ''Seen'', [CHR 0x5C] @ ''Answered'', [CHR 0x5C] @ ''Flagged'',
                  [CHR 0x5C] @ ''Deleted'', [CHR 0x5C] @ ''Draft'', [CHR 0x5C] @ ''Recent''])"

text \<open>\<open>strings.TrimPrefix(s, prefix)\<close>: \<open>s\<close> without the leading \<open>prefix\<close>, or \<open>s\<close> itself.\<close>

definition TrimPrefix :: "string \<Rightarrow> string \<Rightarrow> string" where
  "TrimPrefix s pre = (if take (length pre) s = pre then drop (length pre) s else s)"

fun extractGmailLabels_loop :: "string list \<Rightarrow> string list \<Rightarrow> string list" where
  "extractGmailLabels_loop labels [] = labels"
| "extractGmailLabels_loop labels (flagStr # flags) =
     (if \<not> isStandardIMAPFlag flagStr then
        (let label = TrimPrefix flagStr [CHR 0x5C] in
           if label \<noteq> [] \<and> label \<noteq> flagStr
           then extractGmailLabels_loop (labels @ [label]) flags
           else extractGmailLabels_loop labels flags)
      else extractGmailLabels_loop labels flags)"

definition extractGmailLabels :: "string list \<Rightarrow> string list" where
  "extractGmailLabels flags = extractGmailLabels_loop [] flags"

section \<open>Errors, network-error classification and retry (package imap, src/unnamed/part_006)\<close>

text \<open>
  Go error values, as far as the client inspects them: the sentinels \<open>io.EOF\<close> and
  \<open>io.ErrUnexpectedEOF\<close>, the two context errors, an error that implements
  \<open>net.Error\<close>, any other error with its message, and \<open>fmt.Errorf("<prefix>: %w", err)\<close>,
  which wraps \<open>err\<close>. A nil error is \<open>None\<close> of \<open>error option\<close>.
\<close>

datatype error =
    EOF
  | ErrUnexpectedEOF
  | ContextCanceled
  | ContextDeadlineExceeded
  | NetError string
  | ErrorString string
  | Wrapf string error

fun Error_str :: "error \<Rightarrow> string" where
  "Error_str EOF = ''EOF''"
| "Error_str ErrUnexpectedEOF = ''unexpected EOF''"
| "Error_str ContextCanceled = ''context canceled''"
| "Error_str ContextDeadlineExceeded = ''context deadline exceeded''"
| "Error_str (NetError m) = m"
| "Error_str (ErrorString m) = m"
| "Error_str (Wrapf p e) = p @ '': '' @ Error_str e"

text \<open>\<open>errors.Is(err, target)\<close> for a sentinel target: some error of the chain is the target.\<close>

fun errors_Is :: "error \<Rightarrow> error \<Rightarrow> bool" where
  "errors_Is (Wrapf p e) target = (Wrapf p e = target \<or> errors_Is e target)"
| "errors_Is e target = (e = target)"

text \<open>
  \<open>errors.As(err, &netErr)\<close> with \<open>netErr\<close> of type \<open>net.Error\<close>: some error of the chain
  implements \<open>net.Error\<close>. \<open>context.DeadlineExceeded\<close> does (it has \<open>Timeout\<close> and
  \<open>Temporary\<close>).
\<close>

fun errors_As_netError :: "error \<Rightarrow> bool" where
  "errors_As_netError (NetError m) = True"
| "errors_As_netError ContextDeadlineExceeded = True"
| "errors_As_netError (Wrapf p e) = errors_As_netError e"
| "errors_As_netError e = False"

text \<open>\<open>strings.Contains(s, substr)\<close>.\<close>

fun Contains :: "string \<Rightarrow> string \<Rightarrow> bool" where
  "Contains [] substr = (substr = [])"
| "Contains (c # s) substr = (prefix substr (c # s) \<or> Contains s substr)"

definition networkErrorPatterns :: "string list" where
  "networkErrorPatterns =
     [''connection reset'', ''broken pipe'', ''connection refused'', ''no route to host'',
      ''network is unreachable'', ''i/o timeout'', ''connection timed out'']"

fun containsAny :: "string \<Rightarrow> string list \<Rightarrow> bool" where
  "containsAny errStr [] = False"
| "containsAny errStr (pattern # patterns) =
     (if Contains errStr pattern then True else containsAny errStr patterns)"

definition isNetworkError :: "error option \<Rightarrow> bool" where
  "isNetworkError err =
     (case err of
        None \<Rightarrow> False
      | Some e \<Rightarrow>
          if errors_Is e EOF \<or> errors_Is e ErrUnexpectedEOF then True
          else if errors_As_netError e then True
          else containsAny (Error_str e) networkErrorPatterns)"

text \<open>Decimal printing of \<open>%d\<close>.\<close>

fun digits :: "nat \<Rightarrow> string" where
  "digits n = (if n < 10 then [char_of (48 + n)]
               else digits (n div 10) @ [char_of (48 + n mod 10)])"

definition Itoa :: "int \<Rightarrow> string" where
  "Itoa i = (if i < 0 then CHR ''-'' # digits (nat (- i)) else digits (nat i))"

text \<open>
  The client. Its connection handle, the network and the clock are outside the program:
  they are a state \<open>'s\<close> of the world, and the calls that touch them are functions on
  that state.
  \<^item> \<open>connect\<close> is \<open>c.connect()\<close> (dial and login);
  \<^item> \<open>closeConn\<close> is the \<open>if c.client != nil { c.client.Close(); c.client = nil }\<close> of
    \<open>reconnect\<close>;
  \<^item> \<open>ctxDone\<close> is the non-blocking poll of \<open>ctx.Done()\<close>: \<open>None\<close> while the context is
    live, otherwise \<open>ctx.Err()\<close>;
  \<^item> \<open>timeAfter d\<close> is the \<open>select\<close> between \<open>time.After(d)\<close> and \<open>ctx.Done()\<close>: \<open>None\<close>
    when the timer fires, otherwise \<open>ctx.Err()\<close>.
\<close>

record Client =
  retries :: int
  fetchGmailLabels :: bool

record 's netenv =
  connect :: "'s \<Rightarrow> error option \<times> 's"
  closeConn :: "'s \<Rightarrow> 's"
  ctxDone :: "'s \<Rightarrow> error option"
  timeAfter :: "int \<Rightarrow> 's \<Rightarrow> error option \<times> 's"

definition Connect :: "'s netenv \<Rightarrow> 's \<Rightarrow> (error + Client) \<times> 's" where
  "Connect E s =
     (let client = \<lparr>retries = 3, fetchGmailLabels = False\<rparr> in
        case connect E s of
          (Some err, s') \<Rightarrow> (Inl err, s')
        | (None, s') \<Rightarrow> (Inr client, s'))"

text \<open>Durations are nanoseconds, as \<open>time.Duration\<close>.\<close>

definition Second :: int where
  "Second = 1000000000"

function reconnect_loop ::
  "'s netenv \<Rightarrow> int \<Rightarrow> int \<Rightarrow> int \<Rightarrow> 's \<Rightarrow> error option \<times> 's" where
  "reconnect_loop E maxRetries backoff attempt s =
     (if attempt \<le> maxRetries then
        (case ctxDone E s of
           Some cerr \<Rightarrow> (Some cerr, s)
         | None \<Rightarrow>
             (case connect E s of
                (Some err, s1) \<Rightarrow>
                  (if attempt < maxRetries then
                     (case timeAfter E backoff s1 of
                        (None, s2) \<Rightarrow>
                          reconnect_loop E maxRetries
                            (if backoff * 2 > 30 * Second then 30 * Second else backoff * 2)
                            (attempt + 1) s2
                      | (Some cerr, s2) \<Rightarrow> (Some cerr, s2))
                   else reconnect_loop E maxRetries backoff (attempt + 1) s1)
              | (None, s1) \<Rightarrow> (None, s1)))
      else (Some (ErrorString (''failed to reconnect after '' @ Itoa maxRetries @ '' attempts'')),
            s))"
  by pat_completeness auto
termination
  by (relation "measure (\<lambda>(E, maxRetries, backoff, attempt, s). nat (maxRetries + 1 - attempt))")
    auto

definition reconnect :: "Client \<Rightarrow> 's netenv \<Rightarrow> 's \<Rightarrow> error option \<times> 's" where
  "reconnect c E s = reconnect_loop E (retries c) Second 1 (closeConn E s)"

text \<open>
  The part of an iteration of \<open>withRetry\<close> before the operation runs: from the second
  attempt on, the context is polled and the connection re-established.
\<close>

definition beforeAttempt :: "Client \<Rightarrow> 's netenv \<Rightarrow> int \<Rightarrow> 's \<Rightarrow> error option \<times> 's" where
  "beforeAttempt c E attempt s =
     (if attempt > 0 then
        (case ctxDone E s of
           Some cerr \<Rightarrow> (Some cerr, s)
         | None \<Rightarrow>
             (case reconnect c E s of
                (Some err, s1) \<Rightarrow> (Some (Wrapf ''reconnection failed'' err), s1)
              | (None, s1) \<Rightarrow> (None, s1)))
      else (None, s))"

function withRetry_loop ::
  "Client \<Rightarrow> 's netenv \<Rightarrow> ('s \<Rightarrow> error option \<times> 's) \<Rightarrow> error option \<Rightarrow> int \<Rightarrow> 's
     \<Rightarrow> error option \<times> 's" where
  "withRetry_loop c E operation lastErr attempt s =
     (if attempt \<le> retries c then
        (case beforeAttempt c E attempt s of
           (Some err, s1) \<Rightarrow> (Some err, s1)
         | (None, s1) \<Rightarrow>
             (case operation s1 of
                (None, s2) \<Rightarrow> (None, s2)
              | (Some err, s2) \<Rightarrow>
                  (if \<not> isNetworkError (Some err) then (Some err, s2)
                   else withRetry_loop c E operation (Some err) (attempt + 1) s2)))
      else
        (case lastErr of
           Some err \<Rightarrow>
             (Some (Wrapf (''operation failed after '' @ Itoa (retries c + 1) @ '' retries'') err),
              s)
         | None \<Rightarrow>
             (Some (ErrorString (''operation failed after '' @ Itoa (retries c + 1) @
                                 '' retries: %!w(<nil>)'')), s)))"
  by pat_completeness auto
termination
  by (relation "measure (\<lambda>(c, E, operation, lastErr, attempt, s). nat (retries c + 1 - attempt))")
    auto

definition withRetry ::
  "Client \<Rightarrow> 's netenv \<Rightarrow> ('s \<Rightarrow> error option \<times> 's) \<Rightarrow> 's \<Rightarrow> error option \<times> 's" where
  "withRetry c E operation s = withRetry_loop c E operation None 0 s"

text \<open>
  Observation of a run: the operation with a log of the results of its invocations, and
  the environment carried over to states with a log. Neither changes what the operation
  or the environment does.
\<close>

definition logged ::
  "('s \<Rightarrow> error option \<times> 's) \<Rightarrow> 's \<times> error option list
     \<Rightarrow> error option \<times> ('s \<times> error option list)" where
  "logged operation = (\<lambda>(s, lg). case operation s of (r, s') \<Rightarrow> (r, (s', lg @ [r])))"

definition withLog :: "'s netenv \<Rightarrow> ('s \<times> error option list) netenv" where
  "withLog E =
     \<lparr>connect = (\<lambda>(s, lg). case connect E s of (r, s') \<Rightarrow> (r, (s', lg))),
      closeConn = (\<lambda>(s, lg). (closeConn E s, lg)),
      ctxDone = (\<lambda>(s, lg). ctxDone E s),
      timeAfter = (\<lambda>d (s, lg). case timeAfter E d s of (r, s') \<Rightarrow> (r, (s', lg)))\<rparr>"

text \<open>The results of the invocations of the operation during one \<open>withRetry\<close>, in order.\<close>

definition attemptLog ::
  "Client \<Rightarrow> 's netenv \<Rightarrow> ('s \<Rightarrow> error option \<times> 's) \<Rightarrow> 's \<Rightarrow> error option list" where
  "attemptLog c E operation s =
     snd (snd (withRetry c (withLog E) (logged operation) (s, [])))"

text \<open>
  A world for concrete runs: the state counts the invocations of the operation,
  connecting always succeeds and the context is never cancelled.
\<close>

definition quietEnv :: "nat netenv" where
  "quietEnv = \<lparr>connect = (\<lambda>s. (None, s)), closeConn = (\<lambda>s. s),
               ctxDone = (\<lambda>s. None), timeAfter = (\<lambda>d s. (None, s))\<rparr>"

section \<open>Storage (package storage, in src/internal/config/config.go)\<close>

type_synonym u32 = "32 word"
type_synonym bytes = "8 word list"

text \<open>
  The standard library the storage calls, as far as its results are used:
  \<^item> \<open>gzip_Write\<close> is \<open>writer.Write(data)\<close> on a fresh \<open>gzip.NewWriter(&buf)\<close>: its error;
  \<^item> \<open>gzip_Close\<close> is \<open>writer.Close()\<close> after \<open>data\<close> was written: its error, or the
    content of \<open>buf\<close>;
  \<^item> \<open>gzip_NewReader\<close> is \<open>gzip.NewReader(bytes.NewReader(data))\<close>, which reads the
    header: its error;
  \<^item> \<open>io_ReadAll\<close> is \<open>io.ReadAll(reader)\<close> on the reader of \<open>data\<close>: the error, or the
    decompressed bytes;
  \<^item> \<open>json_Marshal\<close> and \<open>json_Unmarshal\<close> are \<open>json.Marshal\<close> and \<open>json.Unmarshal\<close> at
    \<open>[]string\<close>.
  These functions are not code of the repository; they are parameters of the model.
\<close>

record lib =
  gzip_Write :: "bytes \<Rightarrow> error option"
  gzip_Close :: "bytes \<Rightarrow> error + bytes"
  gzip_NewReader :: "bytes \<Rightarrow> error option"
  io_ReadAll :: "bytes \<Rightarrow> error + bytes"
  json_Marshal :: "string list \<Rightarrow> error + string"
  json_Unmarshal :: "string \<Rightarrow> error + string list"

definition compressData :: "lib \<Rightarrow> bytes \<Rightarrow> error + bytes" where
  "compressData L data =
     (if length data = 0 then Inr data
      else case gzip_Write L data of
             Some err \<Rightarrow> Inl (Wrapf ''failed to write compressed data'' err)
           | None \<Rightarrow>
               (case gzip_Close L data of
                  Inl err \<Rightarrow> Inl (Wrapf ''failed to close gzip writer'' err)
                | Inr buf \<Rightarrow> Inr buf))"

definition decompressData :: "lib \<Rightarrow> bytes \<Rightarrow> error + bytes" where
  "decompressData L data =
     (if length data = 0 then Inr data
      else case gzip_NewReader L data of
             Some err \<Rightarrow> Inl (Wrapf ''failed to create gzip reader'' err)
           | None \<Rightarrow>
               (case io_ReadAll L data of
                  Inl err \<Rightarrow> Inl (Wrapf ''failed to read decompressed data'' err)
                | Inr result \<Rightarrow> Inr result))"

text \<open>
  What \<open>compress/gzip\<close> checks first in a header (RFC 1952): ten bytes, of which the
  first two are the magic number and the third is the deflate method. A stream that
  fails this has no valid gzip header.
\<close>

definition gzip_header_ok :: "bytes \<Rightarrow> bool" where
  "gzip_header_ok z = (length z \<ge> 10 \<and> z ! 0 = 0x1f \<and> z ! 1 = 0x8b \<and> z ! 2 = 8)"

text \<open>
  The contract of \<open>compress/gzip\<close> that the storage relies on: writing a non-empty input
  succeeds and leaves a stream with a valid header that reads back as the input; a
  reader refuses a stream without a valid header.
\<close>

definition gzip_contract :: "lib \<Rightarrow> bool" where
  "gzip_contract L =
     ((\<forall>x. x \<noteq> [] \<longrightarrow>
          gzip_Write L x = None \<and>
          (\<exists>z. gzip_Close L x = Inr z \<and> gzip_header_ok z \<and>
               gzip_NewReader L z = None \<and> io_ReadAll L z = Inr x))
      \<and> (\<forall>z. \<not> gzip_header_ok z \<longrightarrow> gzip_NewReader L z \<noteq> None))"

text \<open>Times are Unix seconds, as the store keeps them.\<close>

record Email =
  UID :: u32
  Mailbox :: string
  Subject :: string
  From :: string
  To :: "string list"
  Date :: int
  Size :: u32
  Flags :: "string list"
  GmailLabels :: "string list"
  Body :: bytes
  Headers :: bytes
  RawMessage :: bytes
  Synced :: int

record MailboxState =
  Name :: string
  UIDValidity :: u32
  LastUID :: u32
  LastSync :: int

text \<open>
  The database: the three tables by primary key, and the engine. A statement can fail
  for reasons outside the program (I/O, a read-only handle); \<open>dbFault k\<close> is the failure
  of the \<open>k\<close>-th statement run on the handle, if any, and \<open>dbCalls\<close> counts the
  statements run so far. A BLOB column holds bytes; \<open>NULL\<close> and the empty blob both
  scan to a slice of length 0 and are \<open>[]\<close>.
\<close>

record emails_row =
  e_subject :: string
  e_from_addr :: string
  e_to_addrs :: string
  e_date :: int
  e_size :: u32
  e_flags :: string
  e_synced :: int

record email_content_row =
  c_body :: bytes
  c_headers :: bytes
  c_raw_message :: bytes

record mailbox_state_row =
  uid_validity :: u32
  last_uid :: u32
  last_sync :: int

record Storage =
  emails :: "string \<times> u32 \<rightharpoonup> emails_row"
  email_content :: "string \<times> u32 \<rightharpoonup> email_content_row"
  mailbox_state :: "string \<rightharpoonup> mailbox_state_row"
  dbFault :: "nat \<Rightarrow> error option"
  dbCalls :: nat

definition dbExec :: "Storage \<Rightarrow> error option \<times> Storage" where
  "dbExec st = (dbFault st (dbCalls st), st\<lparr>dbCalls := Suc (dbCalls st)\<rparr>)"

text \<open>
  The loop of \<open>SaveEmailBatch\<close> over the emails, inside the transaction. The tables of
  the state it returns are those the transaction sees.
\<close>

fun SaveEmailBatch_rows :: "lib \<Rightarrow> Storage \<Rightarrow> Email list \<Rightarrow> error option \<times> Storage" where
  "SaveEmailBatch_rows L st [] = (None, st)"
| "SaveEmailBatch_rows L st (email # rest) =
     (case json_Marshal L (To email) of
        Inl err \<Rightarrow> (Some (Wrapf ''failed to marshal to addresses'' err), st)
      | Inr toJSON \<Rightarrow>
     (case json_Marshal L (Flags email) of
        Inl err \<Rightarrow> (Some (Wrapf ''failed to marshal flags'' err), st)
      | Inr flagsJSON \<Rightarrow>
     (case dbExec st of
        (Some err, st1) \<Rightarrow> (Some (Wrapf ''failed to insert email metadata'' err), st1)
      | (None, st1) \<Rightarrow>
     (let st2 = st1\<lparr>emails := (emails st1)((Mailbox email, UID email) \<mapsto>
                  \<lparr>e_subject = Subject email, e_from_addr = From email, e_to_addrs = toJSON,
                   e_date = Date email, e_size = Size email, e_flags = flagsJSON,
                   e_synced = Synced email\<rparr>)\<rparr> in
      case compressData L (Body email) of
        Inl err \<Rightarrow> (Some (Wrapf ''failed to compress body'' err), st2)
      | Inr compressedBody \<Rightarrow>
     (case compressData L (Headers email) of
        Inl err \<Rightarrow> (Some (Wrapf ''failed to compress headers'' err), st2)
      | Inr compressedHeaders \<Rightarrow>
     (case compressData L (RawMessage email) of
        Inl err \<Rightarrow> (Some (Wrapf ''failed to compress raw message'' err), st2)
      | Inr compressedRawMessage \<Rightarrow>
     (case dbExec st2 of
        (Some err, st3) \<Rightarrow> (Some (Wrapf ''failed to insert email content'' err), st3)
      | (None, st3) \<Rightarrow>
          SaveEmailBatch_rows L
            (st3\<lparr>email_content := (email_content st3)((Mailbox email, UID email) \<mapsto>
                  \<lparr>c_body = compressedBody, c_headers = compressedHeaders,
                   c_raw_message = compressedRawMessage\<rparr>)\<rparr>) rest)))))))"

text \<open>\<open>tx.Rollback()\<close>, and a failed \<open>tx.Commit()\<close>: the tables are those before the transaction.\<close>

definition rollback :: "Storage \<Rightarrow> Storage \<Rightarrow> Storage" where
  "rollback st0 st = st\<lparr>emails := emails st0, email_content := email_content st0\<rparr>"

definition SaveEmailBatch :: "lib \<Rightarrow> Storage \<Rightarrow> Email list \<Rightarrow> error option \<times> Storage" where
  "SaveEmailBatch L st emailList =
     (if length emailList = 0 then (None, st)
      else case dbExec st of
        (Some err, st1) \<Rightarrow> (Some (Wrapf ''failed to begin transaction'' err), st1)
      | (None, st1) \<Rightarrow>
     (case dbExec st1 of
        (Some err, st2) \<Rightarrow>
          (Some (Wrapf ''failed to prepare metadata statement'' err), rollback st st2)
      | (None, st2) \<Rightarrow>
     (case dbExec st2 of
        (Some err, st3) \<Rightarrow>
          (Some (Wrapf ''failed to prepare content statement'' err), rollback st st3)
      | (None, st3) \<Rightarrow>
     (case SaveEmailBatch_rows L st3 emailList of
        (Some err, st4) \<Rightarrow> (Some err, rollback st st4)
      | (None, st4) \<Rightarrow>
     (case dbExec st4 of
        (Some err, st5) \<Rightarrow> (Some err, rollback st st5)
      | (None, st5) \<Rightarrow> (None, st5))))))"


definition SaveMailboxState :: "Storage \<Rightarrow> MailboxState \<Rightarrow> error option \<times> Storage" where
  "SaveMailboxState st state =
     (case dbExec st of
        (Some err, st1) \<Rightarrow> (Some err, st1)
      | (None, st1) \<Rightarrow>
          (None, st1\<lparr>mailbox_state := (mailbox_state st1)(Name state \<mapsto>
                       \<lparr>uid_validity = UIDValidity state, last_uid = LastUID state,
                        last_sync = LastSync state\<rparr>)\<rparr>))"

definition GetMailboxState ::
  "Storage \<Rightarrow> string \<Rightarrow> (error + MailboxState option) \<times> Storage" where
  "GetMailboxState st mailbox =
     (case dbExec st of
        (Some err, st1) \<Rightarrow> (Inl (Wrapf ''failed to get mailbox state'' err), st1)
      | (None, st1) \<Rightarrow>
          (case mailbox_state st1 mailbox of
             None \<Rightarrow> (Inr None, st1)
           | Some row \<Rightarrow>
               (Inr (Some \<lparr>Name = mailbox, UIDValidity = uid_validity row,
                           LastUID = last_uid row, LastSync = last_sync row\<rparr>), st1)))"

text \<open>
  A stand-in library for concrete runs. It is not \<open>compress/gzip\<close> or \<open>encoding/json\<close>:
  the stream is a fixed ten-byte gzip header followed by the input as it is, and the
  JSON text of a list quotes its elements without escaping; only the empty array and
  \<open>null\<close> are read back.
\<close>

definition demoHeader :: bytes where
  "demoHeader = [0x1f, 0x8b, 8, 0, 0, 0, 0, 0, 0, 0xff]"

fun demoJoin :: "string list \<Rightarrow> string" where
  "demoJoin [] = []"
| "demoJoin [x] = CHR 0x22 # x @ [CHR 0x22]"
| "demoJoin (x # y # r) = CHR 0x22 # x @ [CHR 0x22] @ '','' @ demoJoin (y # r)"

definition demoLib :: lib where
  "demoLib =
     \<lparr>gzip_Write = (\<lambda>x. None),
      gzip_Close = (\<lambda>x. Inr (demoHeader @ x)),
      gzip_NewReader =
        (\<lambda>z. if gzip_header_ok z then None else Some (ErrorString ''gzip: invalid header'')),
      io_ReadAll = (\<lambda>z. Inr (drop 10 z)),
      json_Marshal = (\<lambda>xs. Inr (''['' @ demoJoin xs @ '']'')),
      json_Unmarshal =
        (\<lambda>s. if s = ''[]'' \<or> s = ''null'' then Inr []
             else Inl (ErrorString ''json: unsupported value''))\<rparr>"

section \<open>Syncer (package sync, src/unnamed/part_004)\<close>

text \<open>
  What the IMAP client returns to the syncer. \<open>SelectData\<close> is the part of the library's
  select result that the syncer reads.
\<close>

record SelectData =
  sel_UIDValidity :: u32
  sel_NumMessages :: u32

record Address =
  addr_Mailbox :: string
  addr_Host :: string

record Envelope =
  env_Date :: int
  env_Subject :: string
  env_From :: "Address list"
  env_To :: "Address list"

record Message =
  msg_UID :: u32
  msg_Flags :: "string list"
  msg_Size :: u32
  msg_Envelope :: "Envelope option"
  msg_Body :: bytes
  msg_Headers :: bytes
  msg_RawMessage :: bytes
  msg_GmailLabels :: "string list"

record Stats =
  TotalMessages :: int
  NewMessages :: int

text \<open>The zero \<open>time.Time\<close> (January 1, year 1, UTC) in Unix seconds.\<close>

definition zeroTime :: int where
  "zeroTime = - 62135596800"

definition ParseEnvelopeDate :: "int \<Rightarrow> Envelope option \<Rightarrow> int" where
  "ParseEnvelopeDate now envelope =
     (case envelope of
        Some e \<Rightarrow> if env_Date e \<noteq> zeroTime then env_Date e else now
      | None \<Rightarrow> now)"

definition FlagsToStrings :: "string list \<Rightarrow> string list" where
  "FlagsToStrings fl = map (\<lambda>flag. flag) fl"

definition formatAddress :: "Address \<Rightarrow> string" where
  "formatAddress addr = addr_Mailbox addr @ ''@'' @ addr_Host addr"

definition convertToEmail :: "int \<Rightarrow> string \<Rightarrow> Message \<Rightarrow> Email" where
  "convertToEmail now mailbox msg =
     \<lparr>UID = msg_UID msg,
      Mailbox = mailbox,
      Subject = (case msg_Envelope msg of Some e \<Rightarrow> env_Subject e | None \<Rightarrow> []),
      From = (case msg_Envelope msg of
                Some e \<Rightarrow> (case env_From e of addr # _ \<Rightarrow> formatAddress addr | [] \<Rightarrow> [])
              | None \<Rightarrow> []),
      To = (case msg_Envelope msg of Some e \<Rightarrow> map formatAddress (env_To e) | None \<Rightarrow> []),
      Date = ParseEnvelopeDate now (msg_Envelope msg),
      Size = msg_Size msg,
      Flags = FlagsToStrings (msg_Flags msg),
      GmailLabels = msg_GmailLabels msg,
      Body = msg_Body msg,
      Headers = msg_Headers msg,
      RawMessage = msg_RawMessage msg,
      Synced = now\<rparr>"

fun filterUIDs_loop :: "u32 list \<Rightarrow> u32 list \<Rightarrow> u32 \<Rightarrow> u32 list" where
  "filterUIDs_loop result [] startUID = result"
| "filterUIDs_loop result (uid # uids) startUID =
     filterUIDs_loop (if uid \<ge> startUID then result @ [uid] else result) uids startUID"

definition filterUIDs :: "u32 list \<Rightarrow> u32 \<Rightarrow> u32 list" where
  "filterUIDs uids startUID = filterUIDs_loop [] uids startUID"

text \<open>
  The world of one \<open>SyncMailbox\<close> call. The environment holds what is outside the
  program during the call: the results of the three client calls (each already
  includes the client's own retries), the context (\<open>ctxErr k\<close> is what the \<open>k\<close>-th look
  at the context finds: \<open>None\<close> while it is live, otherwise \<open>ctx.Err()\<close>) and the clock
  (one instant for the call). The state holds the database, the number of looks at the
  context so far, and a record of the calls made on the client and the store, in
  order: \<open>Fetch\<close> for a \<open>FetchMessages\<close> request, \<open>SaveBatch\<close> for a committed
  \<open>SaveEmailBatch\<close>, \<open>SaveState\<close> for a stored mailbox state. Logging and the progress
  bar do not influence the result and are left out.
\<close>

record syncenv =
  SelectMailboxWithContext :: "string \<Rightarrow> error + SelectData"
  SearchAllWithContext :: "error + u32 list"
  FetchMessagesWithContext :: "u32 list \<Rightarrow> error + Message list"
  ctxErr :: "nat \<Rightarrow> error option"
  timeNow :: int

datatype event = Fetch "u32 list" | SaveBatch "Email list" | SaveState MailboxState

record world =
  storage :: Storage
  ctxPolls :: nat
  events :: "event list"

definition ctxPoll :: "syncenv \<Rightarrow> world \<Rightarrow> error option \<times> world" where
  "ctxPoll env w = (ctxErr env (ctxPolls w), w\<lparr>ctxPolls := Suc (ctxPolls w)\<rparr>)"

definition updateMailboxState ::
  "syncenv \<Rightarrow> world \<Rightarrow> string \<Rightarrow> u32 \<Rightarrow> u32 \<Rightarrow> error option \<times> world" where
  "updateMailboxState env w mailbox uidValidity lastUID =
     (let state = \<lparr>Name = mailbox, UIDValidity = uidValidity, LastUID = lastUID,
                   LastSync = timeNow env\<rparr> in
        case SaveMailboxState (storage w) state of
          (Some err, st) \<Rightarrow> (Some err, w\<lparr>storage := st\<rparr>)
        | (None, st) \<Rightarrow> (None, w\<lparr>storage := st, events := events w @ [SaveState state]\<rparr>))"

definition syncBatch ::
  "lib \<Rightarrow> syncenv \<Rightarrow> string \<Rightarrow> u32 list \<Rightarrow> world \<Rightarrow> error option \<times> world" where
  "syncBatch L env mailbox uids w =
     (case ctxPoll env w of
        (Some cerr, w1) \<Rightarrow> (Some cerr, w1)
      | (None, w1) \<Rightarrow>
     (let w2 = w1\<lparr>events := events w1 @ [Fetch uids]\<rparr> in
      case FetchMessagesWithContext env uids of
        Inl err \<Rightarrow> (Some (Wrapf ''failed to fetch messages'' err), w2)
      | Inr messages \<Rightarrow>
     (case ctxPoll env w2 of
        (Some cerr, w3) \<Rightarrow> (Some cerr, w3)
      | (None, w3) \<Rightarrow>
     (let emailList = map (convertToEmail (timeNow env) mailbox) messages in
      case SaveEmailBatch L (storage w3) emailList of
        (Some err, st) \<Rightarrow> (Some (Wrapf ''failed to save emails'' err), w3\<lparr>storage := st\<rparr>)
      | (None, st) \<Rightarrow>
          (None, w3\<lparr>storage := st, events := events w3 @ [SaveBatch emailList]\<rparr>)))))"

definition batchSize :: nat where
  "batchSize = 5"

function syncLoop ::
  "lib \<Rightarrow> syncenv \<Rightarrow> string \<Rightarrow> u32 list \<Rightarrow> nat \<Rightarrow> world \<Rightarrow> error option \<times> world" where
  "syncLoop L env mailbox uidsToSync i w =
     (if i < length uidsToSync then
        (case ctxPoll env w of
           (Some cerr, w1) \<Rightarrow> (Some cerr, w1)
         | (None, w1) \<Rightarrow>
             (case syncBatch L env mailbox
                     (take ((if i + batchSize > length uidsToSync then length uidsToSync
                             else i + batchSize) - i) (drop i uidsToSync)) w1 of
                (Some err, w2) \<Rightarrow>
                  (case ctxPoll env w2 of
                     (Some cerr, w3) \<Rightarrow> (Some cerr, w3)
                   | (None, w3) \<Rightarrow> (Some (Wrapf ''failed to sync batch'' err), w3))
              | (None, w2) \<Rightarrow> syncLoop L env mailbox uidsToSync (i + batchSize) w2))
      else (None, w))"
  by pat_completeness auto
termination
  by (relation "measure (\<lambda>(L, env, mailbox, uidsToSync, i, w). length uidsToSync - i)")
    (auto simp: batchSize_def)

text \<open>
  The watermark of \<open>SyncMailbox\<close>: the stored state is dropped when its \<open>UIDValidity\<close>
  differs from the selected one, and the start UID is one above its \<open>LastUID\<close> (in
  \<open>uint32\<close>), or 1 without a state.
\<close>

definition resolveState :: "MailboxState option \<Rightarrow> SelectData \<Rightarrow> MailboxState option" where
  "resolveState state selectData =
     (case state of
        Some s \<Rightarrow> if UIDValidity s \<noteq> sel_UIDValidity selectData then None else Some s
      | None \<Rightarrow> None)"

definition startUIDOf :: "MailboxState option \<Rightarrow> u32" where
  "startUIDOf state = (case state of Some s \<Rightarrow> LastUID s + 1 | None \<Rightarrow> 1)"

text \<open>The result is the pair that Go returns: the stats pointer (or nil) and the error.\<close>

definition emptyMailbox ::
  "syncenv \<Rightarrow> world \<Rightarrow> string \<Rightarrow> SelectData \<Rightarrow> (Stats option \<times> error option) \<times> world" where
  "emptyMailbox env w mailbox selectData =
     (case updateMailboxState env w mailbox (sel_UIDValidity selectData) 0 of
        (err, w') \<Rightarrow> ((Some \<lparr>TotalMessages = 0, NewMessages = 0\<rparr>, err), w'))"

definition SyncMailbox ::
  "lib \<Rightarrow> syncenv \<Rightarrow> world \<Rightarrow> string \<Rightarrow> (Stats option \<times> error option) \<times> world" where
  "SyncMailbox L env w mailbox =
     (case SelectMailboxWithContext env mailbox of
        Inl err \<Rightarrow> ((None, Some (Wrapf ''failed to select mailbox'' err)), w)
      | Inr selectData \<Rightarrow>
     (case GetMailboxState (storage w) mailbox of
        (Inl err, st) \<Rightarrow>
          ((None, Some (Wrapf ''failed to get mailbox state'' err)), w\<lparr>storage := st\<rparr>)
      | (Inr stored, st) \<Rightarrow>
     (let w1 = w\<lparr>storage := st\<rparr>;
          state = resolveState stored selectData;
          startUID = startUIDOf state in
      if sel_NumMessages selectData = 0 then emptyMailbox env w1 mailbox selectData
      else
     (case SearchAllWithContext env of
        Inl err \<Rightarrow> ((None, Some (Wrapf ''failed to search messages'' err)), w1)
      | Inr uids \<Rightarrow>
          if length uids = 0 then emptyMailbox env w1 mailbox selectData
          else
            (let uidsToSync = filterUIDs uids startUID in
             if length uidsToSync = 0
             then ((Some \<lparr>TotalMessages = int (length uids), NewMessages = 0\<rparr>, None), w1)
             else
               (case syncLoop L env mailbox uidsToSync 0 w1 of
                  (Some err, w2) \<Rightarrow> ((None, Some err), w2)
                | (None, w2) \<Rightarrow>
                    (case updateMailboxState env w2 mailbox (sel_UIDValidity selectData)
                            (uidsToSync ! (length uidsToSync - 1)) of
                       (err, w3) \<Rightarrow>
                         ((Some \<lparr>TotalMessages = int (length uids),
                                  NewMessages = int (length uidsToSync)\<rparr>, err), w3))))))))"

text \<open>
  The partition of the specification: consecutive chunks of five, the last one
  possibly shorter.
\<close>

function chunks5 :: "'a list \<Rightarrow> 'a list list" where
  "chunks5 xs = (if xs = [] then [] else take 5 xs # chunks5 (drop 5 xs))"
  by pat_completeness auto
termination
  by (relation "measure length") auto

text \<open>
  The writers of the standard library do not fail: a gzip writer on a memory buffer
  returns no error, and neither does \<open>json.Marshal\<close> on a list of strings.
\<close>

definition writerOk :: "lib \<Rightarrow> bool" where
  "writerOk L =
     ((\<forall>x. gzip_Write L x = None \<and> (\<exists>z. gzip_Close L x = Inr z))
      \<and> (\<forall>xs. \<exists>j. json_Marshal L xs = Inr j))"

text \<open>The mailbox state that \<open>GetMailboxState\<close> reads from the table.\<close>

definition storedState :: "Storage \<Rightarrow> string \<Rightarrow> MailboxState option" where
  "storedState st mailbox =
     (case mailbox_state st mailbox of
        None \<Rightarrow> None
      | Some row \<Rightarrow> Some \<lparr>Name = mailbox, UIDValidity = uid_validity row,
                          LastUID = last_uid row, LastSync = last_sync row\<rparr>)"

text \<open>
  A server for concrete runs: the mailbox has \<open>uid_validity\<close> \<open>uv\<close> and the messages
  \<open>uids\<close> (\<open>n\<close> is the message count that SELECT reports), each with an empty envelope-less
  message; the context is never cancelled. And a store with the given mailbox states,
  no emails and no failing statement.
\<close>

definition demoMessage :: "u32 \<Rightarrow> Message" where
  "demoMessage uid =
     \<lparr>msg_UID = uid, msg_Flags = [], msg_Size = 0, msg_Envelope = None, msg_Body = [],
      msg_Headers = [], msg_RawMessage = [], msg_GmailLabels = []\<rparr>"

definition demoServer :: "u32 \<Rightarrow> u32 \<Rightarrow> u32 list \<Rightarrow> syncenv" where
  "demoServer uv n uids =
     \<lparr>SelectMailboxWithContext = (\<lambda>mailbox. Inr \<lparr>sel_UIDValidity = uv, sel_NumMessages = n\<rparr>),
      SearchAllWithContext = Inr uids,
      FetchMessagesWithContext = (\<lambda>batch. Inr (map demoMessage batch)),
      ctxErr = (\<lambda>k. None),
      timeNow = 1700000000\<rparr>"

definition demoWorld :: "(string \<times> mailbox_state_row) list \<Rightarrow> world" where
  "demoWorld states =
     \<lparr>storage = \<lparr>emails = Map.empty, email_content = Map.empty,
                  mailbox_state = map_of states,
                  dbFault = (\<lambda>k. None), dbCalls = 0\<rparr>,
      ctxPolls = 0, events = []\<rparr>"

section \<open>Properties of the Gmail folder filter\<close>

lemma findStar_none: "findStar i p = -1 \<longleftrightarrow> CHR ''*'' \<notin> set p"
  by (induction p arbitrary: i) auto

lemma findStar_split:
  "CHR ''*'' \<notin> set pre \<Longrightarrow> findStar i (pre @ CHR ''*'' # suf) = int (i + length pre)"
  by (induction pre arbitrary: i) auto

lemma first_split_unique:
  "pre @ (c::char) # suf = pre' @ c # suf' \<Longrightarrow> c \<notin> set pre \<Longrightarrow> c \<notin> set pre' \<Longrightarrow>
     pre = pre' \<and> suf = suf'"
proof (induction pre arbitrary: pre')
  case Nil
  then show ?case by (cases pre') auto
next
  case (Cons a pre)
  then show ?case by (cases pre') auto
qed

lemma take_prefix_iff:
  "(length pre \<le> length s \<and> take (length pre) s = pre) \<longleftrightarrow> prefix pre s"
  by (metis append_eq_conv_conj prefix_def prefix_length_le)

lemma drop_suffix_iff:
  "(length suf \<le> length s \<and> drop (length s - length suf) s = suf) \<longleftrightarrow> suffix suf s"
  by (metis suffix_drop suffix_take append_eq_conv_conj suffix_length_le length_drop
      diff_diff_cancel)

lemma simpleWildcardMatch_split:
  assumes "CHR ''*'' \<notin> set pre"
  shows "simpleWildcardMatch (pre @ CHR ''*'' # suf) s \<longleftrightarrow>
           (pre @ CHR ''*'' # suf = s \<or> (prefix pre s \<and> suffix suf s))"
proof -
  have fs: "findStar 0 (pre @ CHR ''*'' # suf) = int (length pre)"
    using findStar_split[OF assms, of 0 suf] by simp
  have n: "nat (int (length pre) + 1) = Suc (length pre)" by simp
  have d: "drop (Suc (length pre)) (pre @ CHR ''*'' # suf) = suf" by simp
  have t: "take (length pre) (pre @ CHR ''*'' # suf) = pre" by simp
  have l: "int (length pre) = int (length (pre @ CHR ''*'' # suf)) - 1 \<longleftrightarrow> suf = []"
    by auto
  show ?thesis
  proof (cases "pre @ CHR ''*'' # suf = s")
    case True
    then show ?thesis by (simp add: simpleWildcardMatch_def)
  next
    case False
    have p: "(length s < length pre \<or> take (length pre) s \<noteq> pre) \<longleftrightarrow> \<not> prefix pre s"
      using take_prefix_iff[of pre s] by auto
    show ?thesis
    proof (cases "suf = []")
      case True
      then show ?thesis using False p
        unfolding simpleWildcardMatch_def Let_def fs n d t l by auto
    next
      case sf: False
      then show ?thesis using False p drop_suffix_iff[of suf s]
        unfolding simpleWildcardMatch_def Let_def fs n d t l by auto
    qed
  qed
qed

lemma matchesAnyPattern_iff:
  "matchesAnyPattern mailbox patterns \<longleftrightarrow> (\<exists>p \<in> set patterns. matchesPattern mailbox p)"
  by (induction patterns) auto

text \<open>
  Claim C7. The pattern match of the filter holds exactly when mailbox and pattern are
  equal, or the pattern splits at its first \<open>*\<close> into a prefix and a suffix such that
  the mailbox starts with the prefix and ends with the suffix. A pattern without \<open>*\<close>
  matches by equality only; \<open>?\<close> and the backslash are ordinary characters. The three
  scenarios of S7 are evaluated on the code.
\<close>

theorem matchesPattern_spec:
  "(matchesPattern mailbox pattern \<longleftrightarrow>
      (mailbox = pattern \<or>
       (\<exists>pre suf. pattern = pre @ CHR ''*'' # suf \<and> CHR ''*'' \<notin> set pre \<and>
                  prefix pre mailbox \<and> suffix suf mailbox)))
   \<and> (CHR ''*'' \<notin> set pattern \<longrightarrow> (matchesPattern mailbox pattern \<longleftrightarrow> mailbox = pattern))
   \<and> matchesPattern ''[Gmail]/Spam'' ''[Gmail]/*''
   \<and> \<not> matchesPattern ''INBOX'' ''[Gmail]/*''
   \<and> matchesPattern ''[Gmail]/Spam'' ''*Spam''
   \<and> \<not> matchesPattern ''ab'' ''a?''
   \<and> \<not> matchesPattern ''a*b'' ([CHR ''a'', CHR 0x5C] @ ''*b'')"
proof -
  have main: "(matchesPattern mailbox pattern \<longleftrightarrow>
      (mailbox = pattern \<or>
       (\<exists>pre suf. pattern = pre @ CHR ''*'' # suf \<and> CHR ''*'' \<notin> set pre \<and>
                  prefix pre mailbox \<and> suffix suf mailbox)))
   \<and> (CHR ''*'' \<notin> set pattern \<longrightarrow> (matchesPattern mailbox pattern \<longleftrightarrow> mailbox = pattern))"
  proof (cases "CHR ''*'' \<in> set pattern")
    case True
    then obtain pre suf where ps: "pattern = pre @ CHR ''*'' # suf" "CHR ''*'' \<notin> set pre"
      by (metis split_list_first)
    have "matchesPattern mailbox pattern \<longleftrightarrow>
            (mailbox = pattern \<or> (prefix pre mailbox \<and> suffix suf mailbox))"
      using simpleWildcardMatch_split[OF ps(2), of suf mailbox] ps(1)
      by (auto simp: matchesPattern_def)
    moreover have "\<And>pre' suf'. pattern = pre' @ CHR ''*'' # suf' \<Longrightarrow> CHR ''*'' \<notin> set pre' \<Longrightarrow>
                     pre' = pre \<and> suf' = suf"
      using ps first_split_unique by metis
    ultimately show ?thesis using True ps by blast
  next
    case False
    then have "findStar 0 pattern = -1" by (simp add: findStar_none)
    then have "matchesPattern mailbox pattern \<longleftrightarrow> mailbox = pattern"
      by (auto simp: matchesPattern_def simpleWildcardMatch_def)
    then show ?thesis using False by auto
  qed
  have e1: "matchesPattern ''[Gmail]/Spam'' ''[Gmail]/*''"
    by (simp add: matchesPattern_def simpleWildcardMatch_def)
  have e2: "\<not> matchesPattern ''INBOX'' ''[Gmail]/*''"
    by (simp add: matchesPattern_def simpleWildcardMatch_def)
  have e3: "matchesPattern ''[Gmail]/Spam'' ''*Spam''"
    by (simp add: matchesPattern_def simpleWildcardMatch_def)
  have e4: "\<not> matchesPattern ''ab'' ''a?''"
    by (simp add: matchesPattern_def simpleWildcardMatch_def)
  have e5: "\<not> matchesPattern ''a*b'' ([CHR ''a'', CHR 0x5C] @ ''*b'')"
    by (simp add: matchesPattern_def simpleWildcardMatch_def)
  show ?thesis using main e1 e2 e3 e4 e5 by blast
qed

theorem matchesPattern_spec_witness:
  "CHR ''*'' \<notin> set ''INBOX'' \<and> (matchesPattern ''Sent'' ''INBOX'' \<longleftrightarrow> ''Sent'' = ''INBOX'')
   \<and> matchesPattern ''[Gmail]/Trash'' (''[Gmail]/'' @ CHR ''*'' # ''ash'')"
proof -
  have a: "CHR ''*'' \<notin> set ''INBOX''" by simp
  have b: "matchesPattern ''Sent'' ''INBOX'' \<longleftrightarrow> ''Sent'' = ''INBOX''"
    using matchesPattern_spec[of "''Sent''" "''INBOX''"] a by blast
  have c: "CHR ''*'' \<notin> set ''[Gmail]/''" "prefix ''[Gmail]/'' ''[Gmail]/Trash''"
    "suffix ''ash'' ''[Gmail]/Trash''"
    by (simp_all add: suffix_to_prefix)
  have "matchesPattern ''[Gmail]/Trash'' (''[Gmail]/'' @ CHR ''*'' # ''ash'')"
    using matchesPattern_spec[of "''[Gmail]/Trash''" "''[Gmail]/'' @ CHR ''*'' # ''ash''"] c
    by blast
  then show ?thesis using a b by blast
qed

text \<open>
  Claim C6. For the filter built by \<open>NewGmailFilter\<close>, \<open>ShouldSkipMailbox\<close> applies its
  rules in this order and returns the first that applies: not effective-enabled
  (enabled-config and Gmail server) gives false; a non-empty include list gives true
  exactly when no include pattern matches, before the All-Mail rule and the exclude list
  are looked at; skip-All-Mail (default true) on one of the two All Mail folders gives
  true; a non-empty exclude list with a matching pattern gives true; otherwise false.
\<close>

theorem ShouldSkipMailbox_rules:
  "ShouldSkipMailbox (NewGmailFilter cfg isGm) mailbox =
     (if \<not> (IsEnabled cfg \<and> isGm) then False
      else if IncludeFolders cfg \<noteq> []
        then \<not> (\<exists>p \<in> set (IncludeFolders cfg). matchesPattern mailbox p)
      else if ShouldSkipAllMail cfg \<and>
              (mailbox = ''[Gmail]/All Mail'' \<or> mailbox = ''[Google Mail]/All Mail'') then True
      else if ExcludeFolders cfg \<noteq> [] \<and>
              (\<exists>p \<in> set (ExcludeFolders cfg). matchesPattern mailbox p) then True
      else False)
   \<and> (IsEnabled cfg \<longleftrightarrow> Enabled cfg \<noteq> Some False)
   \<and> (ShouldSkipAllMail cfg \<longleftrightarrow> SkipAllMail cfg \<noteq> Some False)"
proof -
  have "IsEnabled cfg \<longleftrightarrow> Enabled cfg \<noteq> Some False"
    by (simp add: IsEnabled_def split: option.splits)
  moreover have "ShouldSkipAllMail cfg \<longleftrightarrow> SkipAllMail cfg \<noteq> Some False"
    by (simp add: ShouldSkipAllMail_def split: option.splits)
  moreover have "ShouldSkipMailbox (NewGmailFilter cfg isGm) mailbox =
     (if \<not> (IsEnabled cfg \<and> isGm) then False
      else if IncludeFolders cfg \<noteq> []
        then \<not> (\<exists>p \<in> set (IncludeFolders cfg). matchesPattern mailbox p)
      else if ShouldSkipAllMail cfg \<and>
              (mailbox = ''[Gmail]/All Mail'' \<or> mailbox = ''[Google Mail]/All Mail'') then True
      else if ExcludeFolders cfg \<noteq> [] \<and>
              (\<exists>p \<in> set (ExcludeFolders cfg). matchesPattern mailbox p) then True
      else False)"
    by (auto simp add: ShouldSkipMailbox_def NewGmailFilter_def matchesAnyPattern_iff
        IsGmailAllMail_def)
  ultimately show ?thesis by blast
qed

theorem ShouldSkipMailbox_rules_witness:
  "ShouldSkipMailbox
     (NewGmailFilter \<lparr>Enabled = None, SkipAllMail = None, FetchLabels = None,
        ExcludeFolders = [''[Gmail]/Spam''], IncludeFolders = []\<rparr> True) ''[Gmail]/All Mail''
   \<and> ShouldSkipMailbox
     (NewGmailFilter \<lparr>Enabled = None, SkipAllMail = None, FetchLabels = None,
        ExcludeFolders = [''[Gmail]/Spam''], IncludeFolders = []\<rparr> True) ''[Gmail]/Spam''
   \<and> \<not> ShouldSkipMailbox
     (NewGmailFilter \<lparr>Enabled = None, SkipAllMail = None, FetchLabels = None,
        ExcludeFolders = [''[Gmail]/Spam''], IncludeFolders = [''[Gmail]/*'']\<rparr> True)
     ''[Gmail]/All Mail''"
proof -
  have m: "matchesPattern ''[Gmail]/Spam'' ''[Gmail]/Spam''"
    "matchesPattern ''[Gmail]/All Mail'' ''[Gmail]/*''"
    by (simp_all add: matchesPattern_def simpleWildcardMatch_def)
  show ?thesis
    using m
      ShouldSkipMailbox_rules[of "\<lparr>Enabled = None, SkipAllMail = None, FetchLabels = None,
        ExcludeFolders = [''[Gmail]/Spam''], IncludeFolders = []\<rparr>" True "''[Gmail]/All Mail''"]
      ShouldSkipMailbox_rules[of "\<lparr>Enabled = None, SkipAllMail = None, FetchLabels = None,
        ExcludeFolders = [''[Gmail]/Spam''], IncludeFolders = []\<rparr>" True "''[Gmail]/Spam''"]
      ShouldSkipMailbox_rules[of "\<lparr>Enabled = None, SkipAllMail = None, FetchLabels = None,
        ExcludeFolders = [''[Gmail]/Spam''], IncludeFolders = [''[Gmail]/*'']\<rparr>" True
        "''[Gmail]/All Mail''"]
    by simp
qed

section \<open>Properties of INBOX priority\<close>

lemma inboxIndex_none: "inboxIndex i xs = -1 \<longleftrightarrow> ''INBOX'' \<notin> set xs"
  by (induction xs arbitrary: i) auto

lemma inboxIndex_split:
  "''INBOX'' \<notin> set pre \<Longrightarrow> inboxIndex i (pre @ ''INBOX'' # suf) = int (i + length pre)"
  by (induction pre arbitrary: i) auto

lemma remove1_split: "x \<notin> set pre \<Longrightarrow> remove1 x (pre @ x # suf) = pre @ suf"
  by (induction pre) auto

lemma filter_remove1_same:
  "filter (\<lambda>m. m \<noteq> x) (remove1 x xs) = filter (\<lambda>m. m \<noteq> x) xs"
  by (induction xs) auto

text \<open>
  Claim C9. \<open>prioritizeInbox L\<close> is \<open>L\<close> when \<open>L\<close> has no element \<open>INBOX\<close> or starts with
  \<open>INBOX\<close>; otherwise it is \<open>INBOX\<close> followed by \<open>L\<close> without its first \<open>INBOX\<close>. The other
  elements keep their relative order, and the empty list maps to itself.
\<close>

theorem prioritizeInbox_spec:
  "prioritizeInbox L =
     (if ''INBOX'' \<notin> set L \<or> (\<exists>rest. L = ''INBOX'' # rest) then L
      else ''INBOX'' # remove1 ''INBOX'' L)
   \<and> filter (\<lambda>m. m \<noteq> ''INBOX'') (prioritizeInbox L) = filter (\<lambda>m. m \<noteq> ''INBOX'') L
   \<and> prioritizeInbox [] = []"
proof -
  have e: "prioritizeInbox [] = []" by (simp add: prioritizeInbox_def)
  have m: "prioritizeInbox L =
     (if ''INBOX'' \<notin> set L \<or> (\<exists>rest. L = ''INBOX'' # rest) then L
      else ''INBOX'' # remove1 ''INBOX'' L)"
  proof (cases "''INBOX'' \<in> set L")
    case False
    then have "inboxIndex 0 L = -1" by (simp add: inboxIndex_none)
    then show ?thesis using False by (simp add: prioritizeInbox_def)
  next
    case True
    then obtain pre suf where ps: "L = pre @ ''INBOX'' # suf" "''INBOX'' \<notin> set pre"
      by (metis split_list_first)
    have idx: "inboxIndex 0 L = int (length pre)"
      using inboxIndex_split[OF ps(2), of 0 suf] ps(1) by simp
    show ?thesis
    proof (cases pre)
      case Nil
      then show ?thesis using ps idx by (simp add: prioritizeInbox_def)
    next
      case (Cons a pre')
      then have ne: "a \<noteq> ''INBOX''" using ps(2) by auto
      have n: "nat (int (length pre) + 1) = Suc (length pre)" by simp
      have t: "take (length pre) L = pre" and d: "drop (Suc (length pre)) L = suf"
        using ps(1) by simp_all
      have z: "length L \<noteq> 0" "int (length pre) \<noteq> -1" "int (length pre) \<noteq> 0"
        using ps(1) Cons by simp_all
      have "prioritizeInbox L = ''INBOX'' # pre @ suf"
        unfolding prioritizeInbox_def Let_def idx n using t d z by simp
      moreover have "remove1 ''INBOX'' L = pre @ suf"
        using ps remove1_split by metis
      moreover have "\<not> (\<exists>rest. L = ''INBOX'' # rest)" using ps(1) Cons ne by auto
      ultimately show ?thesis using True by simp
    qed
  qed
  have f: "filter (\<lambda>m. m \<noteq> ''INBOX'') (prioritizeInbox L) = filter (\<lambda>m. m \<noteq> ''INBOX'') L"
  proof (cases "''INBOX'' \<notin> set L \<or> (\<exists>rest. L = ''INBOX'' # rest)")
    case True
    then show ?thesis using m by presburger
  next
    case False
    then show ?thesis using m filter_remove1_same[of "''INBOX''" L] by simp
  qed
  show ?thesis using e m f by blast
qed

theorem prioritizeInbox_spec_witness:
  "prioritizeInbox [''Archive'', ''INBOX'', ''Sent'', ''INBOX''] =
     [''INBOX'', ''Archive'', ''Sent'', ''INBOX'']
   \<and> prioritizeInbox [''Archive'', ''Drafts''] = [''Archive'', ''Drafts'']"
  using prioritizeInbox_spec[of "[''Archive'', ''INBOX'', ''Sent'', ''INBOX'']"]
    prioritizeInbox_spec[of "[''Archive'', ''Drafts'']"]
  by simp

section \<open>Properties of Gmail label extraction\<close>

lemma extractGmailLabels_loop_acc:
  "extractGmailLabels_loop acc flags =
     acc @ map (drop 1)
       (filter (\<lambda>t. \<not> isStandardIMAPFlag t \<and> take 1 t = [CHR 0x5C] \<and> drop 1 t \<noteq> []) flags)"
proof (induction flags arbitrary: acc)
  case Nil
  then show ?case by simp
next
  case (Cons t flags)
  show ?case
  proof (cases t)
    case Nil
    then show ?thesis using Cons by (simp add: TrimPrefix_def Let_def)
  next
    case (Cons c r)
    then show ?thesis using Cons.IH by (auto simp: TrimPrefix_def Let_def)
  qed
qed

text \<open>
  Claim C8. The labels extracted from a list of flag tokens are, in order, the tokens
  that are not one of the six standard IMAP flags, that start with a backslash and
  that are longer than the backslash alone, each without that one leading backslash.
  A non-standard token without a leading backslash, and the lone backslash, are not
  extracted.
\<close>

theorem extractGmailLabels_spec:
  "extractGmailLabels flags =
     map (drop 1)
       (filter (\<lambda>t. \<not> isStandardIMAPFlag t \<and> take 1 t = [CHR 0x5C] \<and> drop 1 t \<noteq> []) flags)
   \<and> (isStandardIMAPFlag t \<longleftrightarrow>
        t \<in> {CHR 0x5C # ''Seen'', CHR 0x5C # ''Answered'', CHR 0x5C # ''Flagged'',
             CHR 0x5C # ''Deleted'', CHR 0x5C # ''Draft'', CHR 0x5C # ''Recent''})"
  using extractGmailLabels_loop_acc[of "[]" flags]
  by (simp add: extractGmailLabels_def isStandardIMAPFlag_def)

theorem extractGmailLabels_spec_witness:
  "extractGmailLabels
     [CHR 0x5C # ''Seen'', CHR 0x5C # ''Important'', ''Work'', [CHR 0x5C],
      [CHR 0x5C, CHR 0x5C] @ ''Starred'', CHR 0x5C # ''Recent'']
   = [''Important'', CHR 0x5C # ''Starred'']"
  using extractGmailLabels_spec[of
      "[CHR 0x5C # ''Seen'', CHR 0x5C # ''Important'', ''Work'', [CHR 0x5C],
        [CHR 0x5C, CHR 0x5C] @ ''Starred'', CHR 0x5C # ''Recent'']"]
  by (simp add: isStandardIMAPFlag_def)

section \<open>Properties of the retry decorator\<close>

declare reconnect_loop.simps [simp del]
declare withRetry_loop.simps [simp del]

lemma Contains_sublist: "Contains s substr \<longleftrightarrow> sublist substr s"
  by (induction s) (auto simp: sublist_Cons_right)

lemma containsAny_iff: "containsAny s ps \<longleftrightarrow> (\<exists>p \<in> set ps. sublist p s)"
  by (induction ps) (auto simp: Contains_sublist)

lemma isNetworkError_iff:
  "isNetworkError (Some e) \<longleftrightarrow>
     errors_Is e EOF \<or> errors_Is e ErrUnexpectedEOF \<or> errors_As_netError e \<or>
     (\<exists>p \<in> set networkErrorPatterns. sublist p (Error_str e))"
  by (auto simp: isNetworkError_def containsAny_iff)

lemma withLog_simps:
  "connect (withLog E) (s, lg) = (case connect E s of (r, s') \<Rightarrow> (r, (s', lg)))"
  "closeConn (withLog E) (s, lg) = (closeConn E s, lg)"
  "ctxDone (withLog E) (s, lg) = ctxDone E s"
  "timeAfter (withLog E) d (s, lg) = (case timeAfter E d s of (r, s') \<Rightarrow> (r, (s', lg)))"
  by (simp_all add: withLog_def)

lemma reconnect_loop_withLog:
  "reconnect_loop (withLog E) m b a (s, lg) =
     (case reconnect_loop E m b a s of (r, s') \<Rightarrow> (r, (s', lg)))"
proof (induction E m b a s rule: reconnect_loop.induct)
  case (1 E m b a s)
  show ?case
  proof (cases "a \<le> m")
    case False
    then show ?thesis
      unfolding reconnect_loop.simps[of "withLog E" m b a "(s, lg)"]
        reconnect_loop.simps[of E m b a s]
      by simp
  next
    case le: True
    show ?thesis
    proof (cases "ctxDone E s")
      case (Some cerr)
      then show ?thesis using le
        unfolding reconnect_loop.simps[of "withLog E" m b a "(s, lg)"]
                reconnect_loop.simps[of E m b a s]
              by (simp add: withLog_simps)
    next
      case None
      obtain r s1 where c: "connect E s = (r, s1)" by (cases "connect E s")
      show ?thesis
      proof (cases r)
        case rn: None
        then show ?thesis using le None c
          unfolding reconnect_loop.simps[of "withLog E" m b a "(s, lg)"]
                reconnect_loop.simps[of E m b a s]
              by (simp add: withLog_simps)
      next
        case (Some err)
        show ?thesis
        proof (cases "a < m")
          case False
          then show ?thesis using le None c Some "1.IH"(2)[OF le None c[symmetric] Some False]
            unfolding reconnect_loop.simps[of "withLog E" m b a "(s, lg)"]
                reconnect_loop.simps[of E m b a s]
              by (simp add: withLog_simps)
        next
          case lt: True
          obtain r2 s2 where t: "timeAfter E b s1 = (r2, s2)" by (cases "timeAfter E b s1")
          show ?thesis
          proof (cases r2)
            case None2: None
            then show ?thesis
              using le None c Some lt t "1.IH"(1)[OF le None c[symmetric] Some lt t[symmetric] None2]
              unfolding reconnect_loop.simps[of "withLog E" m b a "(s, lg)"]
                reconnect_loop.simps[of E m b a s]
              by (simp add: withLog_simps)
          next
            case (Some cerr)
            then show ?thesis using le None c \<open>r = Some err\<close> lt t
              unfolding reconnect_loop.simps[of "withLog E" m b a "(s, lg)"]
                reconnect_loop.simps[of E m b a s]
              by (simp add: withLog_simps)
          qed
        qed
      qed
    qed
  qed
qed

lemma beforeAttempt_withLog:
  "beforeAttempt c (withLog E) a (s, lg) =
     (case beforeAttempt c E a s of (r, s') \<Rightarrow> (r, (s', lg)))"
proof -
  have r: "reconnect c (withLog E) (s, lg) = (case reconnect c E s of (r, s') \<Rightarrow> (r, (s', lg)))"
    using reconnect_loop_withLog[of E "retries c" Second 1 "closeConn E s" lg]
    by (simp add: reconnect_def withLog_simps)
  have cd: "ctxDone (withLog E) (s, lg) = ctxDone E s" by (simp add: withLog_simps)
  show ?thesis
    unfolding beforeAttempt_def r cd
    by (simp split: option.splits prod.splits)
qed


lemma logged_simp:
  "logged operation (s, lg) = (case operation s of (r, s') \<Rightarrow> (r, (s', lg @ [r])))"
  by (simp add: logged_def)

lemma withRetry_loop_log:
  "\<exists>lg'. withRetry_loop c (withLog E) (logged operation) lastErr attempt (s, lg0) =
           (fst (withRetry_loop c E operation lastErr attempt s),
            (snd (withRetry_loop c E operation lastErr attempt s), lg0 @ lg'))
        \<and> int (length lg') \<le> max 0 (retries c + 1 - attempt)
        \<and> (\<forall>i. Suc i < length lg' \<longrightarrow> isNetworkError (lg' ! i))
        \<and> (\<forall>e. lg' \<noteq> [] \<and> last lg' = Some e \<and> \<not> isNetworkError (Some e) \<longrightarrow>
               fst (withRetry_loop c E operation lastErr attempt s) = Some e)"
proof (induction c E operation lastErr attempt s arbitrary: lg0 rule: withRetry_loop.induct)
  case (1 c E operation lastErr attempt s)
  let ?L = "withRetry_loop c (withLog E) (logged operation) lastErr attempt (s, lg0)"
  let ?R = "withRetry_loop c E operation lastErr attempt s"
  note L = withRetry_loop.simps[of c "withLog E" "logged operation" lastErr attempt "(s, lg0)"]
  note R = withRetry_loop.simps[of c E operation lastErr attempt s]
  show ?case
  proof (cases "attempt \<le> retries c")
    case False
    then have "?L = (fst ?R, (snd ?R, lg0 @ []))"
      unfolding L R by (simp split: option.splits)
    then show ?thesis by (intro exI[of _ "[]"]) simp
  next
    case le: True
    obtain b s1 where bf: "beforeAttempt c E attempt s = (b, s1)"
      by (cases "beforeAttempt c E attempt s")
    then have bfl: "beforeAttempt c (withLog E) attempt (s, lg0) = (b, (s1, lg0))"
      by (simp add: beforeAttempt_withLog)
    show ?thesis
    proof (cases b)
      case (Some err)
      then have "?L = (fst ?R, (snd ?R, lg0 @ []))"
        unfolding L R using le bf bfl by simp
      then show ?thesis by (intro exI[of _ "[]"]) simp
    next
      case None
      obtain r s2 where op: "operation s1 = (r, s2)" by (cases "operation s1")
      then have opl: "logged operation (s1, lg0) = (r, (s2, lg0 @ [r]))"
        by (simp add: logged_simp)
      show ?thesis
      proof (cases r)
        case rn: None
        then have "?L = (fst ?R, (snd ?R, lg0 @ [None]))" and "fst ?R = None"
          unfolding L R using le bf bfl None op opl by simp_all
        then show ?thesis using le by (intro exI[of _ "[None]"]) simp
      next
        case (Some err)
        show ?thesis
        proof (cases "isNetworkError (Some err)")
          case False
          then have "?L = (fst ?R, (snd ?R, lg0 @ [Some err]))" and "fst ?R = Some err"
            unfolding L R using le bf bfl None op opl Some by simp_all
          then show ?thesis using le by (intro exI[of _ "[Some err]"]) simp
        next
          case net: True
          let ?R' = "withRetry_loop c E operation (Some err) (attempt + 1) s2"
          have nn: "\<not> \<not> isNetworkError (Some err)" using net by simp
          from "1.IH"[OF le bf[symmetric] None op[symmetric] Some nn, of "lg0 @ [Some err]"]
          obtain lg'' where
            ih1: "withRetry_loop c (withLog E) (logged operation) (Some err) (attempt + 1)
                    (s2, lg0 @ [Some err]) = (fst ?R', (snd ?R', (lg0 @ [Some err]) @ lg''))"
            and ih2: "int (length lg'') \<le> max 0 (retries c + 1 - (attempt + 1))"
            and ih3: "\<forall>i. Suc i < length lg'' \<longrightarrow> isNetworkError (lg'' ! i)"
            and ih4: "\<forall>e. lg'' \<noteq> [] \<and> last lg'' = Some e \<and> \<not> isNetworkError (Some e) \<longrightarrow>
                        fst ?R' = Some e"
            by blast
          have Req: "?R = ?R'"
            unfolding R using le bf None op Some net by simp
          have Leq: "?L = (fst ?R, (snd ?R, lg0 @ (Some err # lg'')))"
            unfolding L using le bfl None opl Some net ih1 Req by simp
          have len: "int (length (Some err # lg'')) \<le> max 0 (retries c + 1 - attempt)"
            using ih2 le by simp
          have nets: "\<forall>i. Suc i < length (Some err # lg'') \<longrightarrow>
                        isNetworkError ((Some err # lg'') ! i)"
          proof (intro allI impI)
            fix i assume a: "Suc i < length (Some err # lg'')"
            show "isNetworkError ((Some err # lg'') ! i)"
            proof (cases i)
              case 0
              then show ?thesis using net by simp
            next
              case (Suc j)
              then show ?thesis using a ih3 by simp
            qed
          qed
          have lst: "\<forall>e. Some err # lg'' \<noteq> [] \<and> last (Some err # lg'') = Some e \<and>
                       \<not> isNetworkError (Some e) \<longrightarrow> fst ?R = Some e"
            using ih4 net Req by (cases "lg'' = []") auto
          show ?thesis
            using Leq len nets lst by (intro exI[of _ "Some err # lg''"]) blast
        qed
      qed
    qed
  qed
qed


text \<open>
  Claim C5. For every operation run by \<open>withRetry\<close> on a client made by \<open>Connect\<close>
  (\<open>retries = 3\<close>): the operation is invoked at most 4 times; every invocation but the
  last failed with a network error; an invocation that fails with an error that is not
  a network error is the last one, and \<open>withRetry\<close> returns that very error. A network
  error is one whose chain holds \<open>io.EOF\<close> or \<open>io.ErrUnexpectedEOF\<close> or an error
  implementing \<open>net.Error\<close>, or whose message contains one of the listed substrings.
  The log of invocations does not change the run: result and final state are those of
  \<open>withRetry\<close> on the plain operation.
\<close>

theorem withRetry_attempts:
  assumes "Connect E0 s0 = (Inr c, s1)"
  shows "withRetry c (withLog E) (logged operation) (s, []) =
           (fst (withRetry c E operation s), snd (withRetry c E operation s),
            attemptLog c E operation s)
       \<and> length (attemptLog c E operation s) \<le> 4
       \<and> (\<forall>i. Suc i < length (attemptLog c E operation s) \<longrightarrow>
              isNetworkError (attemptLog c E operation s ! i))
       \<and> (\<forall>i e. i < length (attemptLog c E operation s) \<and>
                attemptLog c E operation s ! i = Some e \<and> \<not> isNetworkError (Some e) \<longrightarrow>
                Suc i = length (attemptLog c E operation s) \<and>
                fst (withRetry c E operation s) = Some e)
       \<and> (isNetworkError (Some e) \<longleftrightarrow>
            errors_Is e EOF \<or> errors_Is e ErrUnexpectedEOF \<or> errors_As_netError e \<or>
            (\<exists>p \<in> set networkErrorPatterns. sublist p (Error_str e)))"
proof -
  have r3: "retries c = 3"
    using assms by (auto simp: Connect_def Let_def split: prod.splits option.splits)
  let ?lg = "attemptLog c E operation s"
  let ?R = "withRetry c E operation s"
  obtain lg' where
    run: "withRetry c (withLog E) (logged operation) (s, []) = (fst ?R, (snd ?R, lg'))"
    and len: "int (length lg') \<le> max 0 (retries c + 1 - 0)"
    and nets: "\<forall>i. Suc i < length lg' \<longrightarrow> isNetworkError (lg' ! i)"
    and lst: "\<forall>e. lg' \<noteq> [] \<and> last lg' = Some e \<and> \<not> isNetworkError (Some e) \<longrightarrow> fst ?R = Some e"
    using withRetry_loop_log[of c E operation None 0 s "[]"]
    unfolding withRetry_def by auto
  have lg: "?lg = lg'" by (simp add: attemptLog_def run)
  have a: "withRetry c (withLog E) (logged operation) (s, []) = (fst ?R, snd ?R, ?lg)"
    using run lg by simp
  have b: "length ?lg \<le> 4" using len r3 lg by simp
  have c: "\<forall>i. Suc i < length ?lg \<longrightarrow> isNetworkError (?lg ! i)" using nets lg by simp
  have d: "\<forall>i e. i < length ?lg \<and> ?lg ! i = Some e \<and> \<not> isNetworkError (Some e) \<longrightarrow>
             Suc i = length ?lg \<and> fst ?R = Some e"
  proof (intro allI impI)
    fix i e
    assume h: "i < length ?lg \<and> ?lg ! i = Some e \<and> \<not> isNetworkError (Some e)"
    then have "\<not> Suc i < length lg'" using nets lg by auto
    then have si: "Suc i = length lg'" using h lg by simp
    then have ne: "lg' \<noteq> []" by auto
    have "last lg' = lg' ! (length lg' - 1)" using ne by (rule last_conv_nth)
    then have "last lg' = lg' ! i" using si by (metis diff_Suc_1)
    note ne this
    then have "fst ?R = Some e" using lst h lg by simp
    then show "Suc i = length ?lg \<and> fst ?R = Some e" using si lg by simp
  qed
  show ?thesis using a b c d isNetworkError_iff[of e] by blast
qed

theorem withRetry_attempts_witness:
  "Connect quietEnv 0 = (Inr \<lparr>retries = 3, fetchGmailLabels = False\<rparr>, 0)
   \<and> attemptLog \<lparr>retries = 3, fetchGmailLabels = False\<rparr> quietEnv
         (\<lambda>n. (if n = 0 then Some EOF else Some (ErrorString ''NO''), Suc n)) 0
       = [Some EOF, Some (ErrorString ''NO'')]
   \<and> fst (withRetry \<lparr>retries = 3, fetchGmailLabels = False\<rparr> quietEnv
         (\<lambda>n. (if n = 0 then Some EOF else Some (ErrorString ''NO''), Suc n)) 0)
       = Some (ErrorString ''NO'')
   \<and> length (attemptLog \<lparr>retries = 3, fetchGmailLabels = False\<rparr> quietEnv
         (\<lambda>n. (Some EOF, Suc n)) 0) \<le> 4"
proof -
  let ?c = "\<lparr>retries = 3, fetchGmailLabels = False\<rparr>"
  let ?op = "\<lambda>n::nat. (if n = 0 then Some EOF else Some (ErrorString ''NO''), Suc n)"
  have h: "Connect quietEnv 0 = (Inr ?c, 0)"
    by (simp add: Connect_def quietEnv_def)
  have lg: "attemptLog ?c quietEnv ?op 0 = [Some EOF, Some (ErrorString ''NO'')]"
    by code_simp
  have nn: "\<not> isNetworkError (Some (ErrorString ''NO''))"
    by code_simp
  have t: "\<forall>i e. i < length (attemptLog ?c quietEnv ?op 0) \<and>
                attemptLog ?c quietEnv ?op 0 ! i = Some e \<and> \<not> isNetworkError (Some e) \<longrightarrow>
                Suc i = length (attemptLog ?c quietEnv ?op 0) \<and>
                fst (withRetry ?c quietEnv ?op 0) = Some e"
    using withRetry_attempts[OF h, of quietEnv ?op 0] by blast
  have "fst (withRetry ?c quietEnv ?op 0) = Some (ErrorString ''NO'')"
    using t[rule_format, of 1 "ErrorString ''NO''"] nn unfolding lg by simp
  moreover have "length (attemptLog ?c quietEnv (\<lambda>n. (Some EOF, Suc n)) 0) \<le> 4"
    using withRetry_attempts[OF h, of quietEnv "\<lambda>n. (Some EOF, Suc n)" 0] by blast
  ultimately show ?thesis using h lg by blast
qed

section \<open>Properties of the storage\<close>

lemma compressData_empty: "compressData L [] = Inr []"
  by (simp add: compressData_def)

lemma decompressData_empty: "decompressData L [] = Inr []"
  by (simp add: decompressData_def)

lemma gzip_header_ok_nonempty: "gzip_header_ok z \<Longrightarrow> z \<noteq> []"
  by (auto simp: gzip_header_ok_def)

lemma compress_decompress:
  assumes "gzip_contract L"
  shows "\<exists>z. compressData L x = Inr z \<and> decompressData L z = Inr x"
proof (cases "x = []")
  case True
  then show ?thesis by (simp add: compressData_empty decompressData_empty)
next
  case False
  then obtain z where z: "gzip_Write L x = None" "gzip_Close L x = Inr z" "gzip_header_ok z"
    "gzip_NewReader L z = None" "io_ReadAll L z = Inr x"
    using assms unfolding gzip_contract_def by blast
  have "z \<noteq> []" using z(3) by (rule gzip_header_ok_nonempty)
  then show ?thesis using False z by (simp add: compressData_def decompressData_def)
qed

lemma decompress_bad_header:
  assumes "gzip_contract L" "z \<noteq> []" "\<not> gzip_header_ok z"
  shows "\<exists>err. decompressData L z = Inl (Wrapf ''failed to create gzip reader'' err)"
proof -
  obtain e where "gzip_NewReader L z = Some e"
    using assms(1,3) unfolding gzip_contract_def by blast
  then show ?thesis using assms(2) by (simp add: decompressData_def)
qed

lemma demoLib_gzip_contract: "gzip_contract demoLib"
proof -
  have h: "gzip_header_ok (demoHeader @ x)" for x
    by (simp add: gzip_header_ok_def demoHeader_def)
  have d: "drop 10 (demoHeader @ x) = x" for x
    by (simp add: demoHeader_def)
  show ?thesis
    unfolding gzip_contract_def by (simp add: demoLib_def h d del: drop_append)
qed

text \<open>
  Claim C4. Given the contract of the gzip library, \<open>decompressData\<close> after \<open>compressData\<close>
  returns the input, for every input; \<open>compressData\<close> and \<open>decompressData\<close> of the empty
  input return the empty input; \<open>decompressData\<close> of a non-empty input without a valid
  gzip header returns an error. The two results on the empty input, and the round trip
  of the empty input, need no contract: the code returns before it calls the library.
\<close>

theorem compress_roundtrip:
  assumes "gzip_contract L"
  shows "(\<exists>z. compressData L x = Inr z \<and> decompressData L z = Inr x)
       \<and> compressData L [] = Inr []
       \<and> decompressData L [] = Inr []
       \<and> (z \<noteq> [] \<and> \<not> gzip_header_ok z \<longrightarrow>
            (\<exists>err. decompressData L z = Inl (Wrapf ''failed to create gzip reader'' err)))"
  using compress_decompress[OF assms, of x] compressData_empty[of L] decompressData_empty[of L]
    decompress_bad_header[OF assms, of z]
  by blast

theorem compress_roundtrip_witness:
  "gzip_contract demoLib
   \<and> compressData demoLib [0x68, 0x69] = Inr (demoHeader @ [0x68, 0x69])
   \<and> decompressData demoLib (demoHeader @ [0x68, 0x69]) = Inr [0x68, 0x69]
   \<and> (\<exists>err. decompressData demoLib [0x6e, 0x6f] =
                Inl (Wrapf ''failed to create gzip reader'' err))"
proof -
  have c: "compressData demoLib [0x68, 0x69] = Inr (demoHeader @ [0x68, 0x69])"
    by (simp add: compressData_def demoLib_def)
  have b: "[0x6e, 0x6f] \<noteq> ([] :: bytes) \<and> \<not> gzip_header_ok [0x6e, 0x6f]"
    by (simp add: gzip_header_ok_def)
  from compress_roundtrip[OF demoLib_gzip_contract, of "[0x68, 0x69]" "[0x6e, 0x6f]"] c b
  show ?thesis using demoLib_gzip_contract by auto
qed



section \<open>Properties of the syncer\<close>

declare syncLoop.simps [simp del]
declare chunks5.simps [simp del]

lemma dbExec_tables:
  "dbExec st = (r, st') \<Longrightarrow>
     mailbox_state st' = mailbox_state st \<and> dbFault st' = dbFault st \<and>
     emails st' = emails st \<and> email_content st' = email_content st \<and>
     dbCalls st' = Suc (dbCalls st) \<and> r = dbFault st (dbCalls st)"
  by (auto simp: dbExec_def)

lemma SaveEmailBatch_rows_keeps:
  "SaveEmailBatch_rows L st es = (r, st') \<Longrightarrow>
     mailbox_state st' = mailbox_state st \<and> dbFault st' = dbFault st"
proof (induction es arbitrary: st)
  case Nil
  then show ?case by simp
next
  case (Cons e es)
  show ?case
    using Cons.prems
    apply (simp split: sum.splits prod.splits option.splits add: Let_def)
    apply (auto dest!: dbExec_tables Cons.IH)
    done
qed

lemma rollback_keeps [simp]:
  "mailbox_state (rollback st0 st) = mailbox_state st" "dbFault (rollback st0 st) = dbFault st"
  by (simp_all add: rollback_def)

lemma SaveEmailBatch_keeps:
  "SaveEmailBatch L st es = (r, st') \<Longrightarrow>
     mailbox_state st' = mailbox_state st \<and> dbFault st' = dbFault st"
  unfolding SaveEmailBatch_def
  apply (simp split: if_splits sum.splits prod.splits option.splits)
  apply (auto dest!: dbExec_tables SaveEmailBatch_rows_keeps)
  done


lemma compressData_ok: "writerOk L \<Longrightarrow> \<exists>z. compressData L x = Inr z"
  unfolding writerOk_def compressData_def
  by (metis (mono_tags, lifting) option.simps(4) sum.simps(6))

lemma dbExec_nofault:
  "\<forall>k. dbFault st k = None \<Longrightarrow> dbExec st = (None, st\<lparr>dbCalls := Suc (dbCalls st)\<rparr>)"
  by (simp add: dbExec_def)

lemma SaveEmailBatch_rows_ok:
  assumes "writerOk L"
  shows "\<forall>k. dbFault st k = None \<Longrightarrow> \<exists>st'. SaveEmailBatch_rows L st es = (None, st')"
proof (induction es arbitrary: st)
  case Nil
  then show ?case by simp
next
  case (Cons e es)
  obtain tj where tj: "json_Marshal L (To e) = Inr tj"
    using assms unfolding writerOk_def by blast
  obtain fj where fj: "json_Marshal L (Flags e) = Inr fj"
    using assms unfolding writerOk_def by blast
  obtain cb where cb: "compressData L (Body e) = Inr cb" using compressData_ok[OF assms] by blast
  obtain ch where ch: "compressData L (Headers e) = Inr ch" using compressData_ok[OF assms] by blast
  obtain cr where cr: "compressData L (RawMessage e) = Inr cr" using compressData_ok[OF assms] by blast
  show ?case
    using Cons.prems tj fj cb ch cr
    by (simp add: dbExec_def Let_def Cons.IH)
qed

lemma SaveEmailBatch_ok:
  assumes "writerOk L" "\<forall>k. dbFault st k = None"
  shows "\<exists>st'. SaveEmailBatch L st es = (None, st')"
proof (cases "length es = 0")
  case True
  then show ?thesis by (simp add: SaveEmailBatch_def)
next
  case False
  let ?st3 = "st\<lparr>dbCalls := Suc (Suc (Suc (dbCalls st)))\<rparr>"
  have "\<forall>k. dbFault ?st3 k = None" using assms(2) by simp
  then obtain st4 where r: "SaveEmailBatch_rows L ?st3 es = (None, st4)"
    using SaveEmailBatch_rows_ok[OF assms(1)] by blast
  then have "dbFault st4 = dbFault ?st3" using SaveEmailBatch_rows_keeps by blast
  then have f4: "\<forall>k. dbFault st4 k = None" using assms(2) by simp
  show ?thesis
    using False assms(2) r f4 by (simp add: SaveEmailBatch_def dbExec_def)
qed

lemma ctxPoll_live:
  "\<forall>k. ctxErr env k = None \<Longrightarrow> ctxPoll env w = (None, w\<lparr>ctxPolls := Suc (ctxPolls w)\<rparr>)"
  by (simp add: ctxPoll_def)

lemma syncBatch_ok:
  assumes "writerOk L" "\<forall>k. dbFault (storage w) k = None" "\<forall>k. ctxErr env k = None"
    and "FetchMessagesWithContext env uids = Inr msgs"
  shows "\<exists>w'. syncBatch L env mailbox uids w = (None, w')
            \<and> events w' = events w @ [Fetch uids,
                 SaveBatch (map (convertToEmail (timeNow env) mailbox) msgs)]
            \<and> mailbox_state (storage w') = mailbox_state (storage w)
            \<and> dbFault (storage w') = dbFault (storage w)"
proof -
  obtain st' where s: "SaveEmailBatch L (storage w)
      (map (convertToEmail (timeNow env) mailbox) msgs) = (None, st')"
    using SaveEmailBatch_ok[OF assms(1,2)] by blast
  then have k: "mailbox_state st' = mailbox_state (storage w) \<and> dbFault st' = dbFault (storage w)"
    using SaveEmailBatch_keeps by blast
  show ?thesis
    using assms(3,4) s k by (simp add: syncBatch_def ctxPoll_def Let_def)
qed

lemma chunks5_unfold: "xs \<noteq> [] \<Longrightarrow> chunks5 xs = take 5 xs # chunks5 (drop 5 xs)"
  by (subst chunks5.simps) simp

lemma chunks5_Nil [simp]: "chunks5 [] = []"
  by (subst chunks5.simps) simp

lemma batch_slice:
  "i < length xs \<Longrightarrow>
     take ((if i + batchSize > length xs then length xs else i + batchSize) - i) (drop i xs)
       = take 5 (drop i xs)"
  by (auto simp: batchSize_def)

lemma syncLoop_ok:
  "writerOk L \<Longrightarrow> \<forall>k. ctxErr env k = None \<Longrightarrow>
         \<forall>k. dbFault (storage w) k = None \<Longrightarrow>
         \<forall>c \<in> set (chunks5 (drop i xs)). \<exists>msgs. FetchMessagesWithContext env c = Inr msgs \<Longrightarrow>
         \<exists>w'. syncLoop L env mailbox xs i w = (None, w')
            \<and> events w' = events w @ concat (map (\<lambda>c. [Fetch c,
                 SaveBatch (map (convertToEmail (timeNow env) mailbox)
                   (projr (FetchMessagesWithContext env c)))]) (chunks5 (drop i xs)))
            \<and> mailbox_state (storage w') = mailbox_state (storage w)
            \<and> dbFault (storage w') = dbFault (storage w)"
proof (induction L env mailbox xs i w rule: syncLoop.induct)
  case (1 L env mailbox xs i w)
  show ?case
  proof (cases "i < length xs")
    case False
    then show ?thesis by (simp add: syncLoop.simps[of L env mailbox xs i w])
  next
    case True
    let ?b = "take 5 (drop i xs)"
    let ?w1 = "w\<lparr>ctxPolls := Suc (ctxPolls w)\<rparr>"
    have ne: "drop i xs \<noteq> []" using True by simp
    have ch: "chunks5 (drop i xs) = ?b # chunks5 (drop (i + batchSize) xs)"
      using chunks5_unfold[OF ne] by (simp add: batchSize_def add.commute)
    obtain msgs where f: "FetchMessagesWithContext env ?b = Inr msgs"
      using "1.prems"(4) ch by auto
    have nf1: "\<forall>k. dbFault (storage ?w1) k = None" using "1.prems"(3) by simp
    obtain w2 where b: "syncBatch L env mailbox ?b ?w1 = (None, w2)"
      and e2: "events w2 = events ?w1 @ [Fetch ?b,
                 SaveBatch (map (convertToEmail (timeNow env) mailbox) msgs)]"
      and m2: "mailbox_state (storage w2) = mailbox_state (storage ?w1)"
      and f2: "dbFault (storage w2) = dbFault (storage ?w1)"
      using syncBatch_ok[OF "1.prems"(1) nf1 "1.prems"(2) f, of mailbox] by blast
    have nf2: "\<forall>k. dbFault (storage w2) k = None" using f2 nf1 by simp
    have rest: "\<forall>c \<in> set (chunks5 (drop (i + batchSize) xs)).
                  \<exists>msgs. FetchMessagesWithContext env c = Inr msgs"
      using "1.prems"(4) ch by simp
    have p: "ctxPoll env w = (None, ?w1)" using "1.prems"(2) by (rule ctxPoll_live)
    have b': "syncBatch L env mailbox
                (take ((if i + batchSize > length xs then length xs else i + batchSize) - i)
                   (drop i xs)) ?w1 = (None, w2)"
      using b batch_slice[OF True] by simp
    from "1.IH"[OF True p[symmetric] refl b'[symmetric] refl "1.prems"(1) "1.prems"(2) nf2 rest]
    obtain w' where l: "syncLoop L env mailbox xs (i + batchSize) w2 = (None, w')"
      and e': "events w' = events w2 @ concat (map (\<lambda>c. [Fetch c,
                 SaveBatch (map (convertToEmail (timeNow env) mailbox)
                   (projr (FetchMessagesWithContext env c)))]) (chunks5 (drop (i + batchSize) xs)))"
      and m': "mailbox_state (storage w') = mailbox_state (storage w2)"
      and f': "dbFault (storage w') = dbFault (storage w2)"
      by blast
    have "syncLoop L env mailbox xs i w = (None, w')"
      using True p b' l by (simp add: syncLoop.simps[of L env mailbox xs i w])
    moreover have "events w' = events w @ concat (map (\<lambda>c. [Fetch c,
                 SaveBatch (map (convertToEmail (timeNow env) mailbox)
                   (projr (FetchMessagesWithContext env c)))]) (chunks5 (drop i xs)))"
      using e' e2 f by (simp add: ch)
    ultimately show ?thesis using m' m2 f' f2 by simp
  qed
qed

lemma chunks5_concat: "concat (chunks5 xs) = xs"
proof (induction xs rule: chunks5.induct)
  case (1 xs)
  show ?case
  proof (cases "xs = []")
    case True
    then show ?thesis by simp
  next
    case False
    then show ?thesis using "1.IH" by (simp add: chunks5_unfold)
  qed
qed

lemma chunks5_sizes: "c \<in> set (chunks5 xs) \<Longrightarrow> 0 < length c \<and> length c \<le> 5"
proof (induction xs rule: chunks5.induct)
  case (1 xs)
  show ?case
  proof (cases "xs = []")
    case True
    then show ?thesis using "1.prems" by simp
  next
    case False
    then show ?thesis using "1.IH" "1.prems" by (auto simp: chunks5_unfold)
  qed
qed

lemma chunks5_full: "Suc k < length (chunks5 xs) \<Longrightarrow> length (chunks5 xs ! k) = 5"
proof (induction xs arbitrary: k rule: chunks5.induct)
  case (1 xs)
  show ?case
  proof (cases "xs = []")
    case True
    then show ?thesis using "1.prems" by simp
  next
    case False
    note u = chunks5_unfold[OF False]
    show ?thesis
    proof (cases k)
      case 0
      then have "chunks5 (drop 5 xs) \<noteq> []" using "1.prems" u by auto
      then have "drop 5 xs \<noteq> []" by auto
      then have "5 < length xs" by simp
      then show ?thesis using 0 u by simp
    next
      case (Suc j)
      then have "Suc j < length (chunks5 (drop 5 xs))" using "1.prems" u by simp
      then show ?thesis using "1.IH"[OF False] Suc u by simp
    qed
  qed
qed

lemma filterUIDs_loop_acc:
  "filterUIDs_loop acc uids startUID = acc @ filter (\<lambda>uid. startUID \<le> uid) uids"
  by (induction uids arbitrary: acc) auto

lemma filterUIDs_filter: "filterUIDs uids startUID = filter (\<lambda>uid. startUID \<le> uid) uids"
  by (simp add: filterUIDs_def filterUIDs_loop_acc)

lemma GetMailboxState_ok:
  "dbFault st (dbCalls st) = None \<Longrightarrow>
     GetMailboxState st mailbox = (Inr (storedState st mailbox), st\<lparr>dbCalls := Suc (dbCalls st)\<rparr>)"
  by (simp add: GetMailboxState_def dbExec_def storedState_def split: option.splits)

lemma updateMailboxState_ok:
  "dbFault (storage w) (dbCalls (storage w)) = None \<Longrightarrow>
     \<exists>w'. updateMailboxState env w mailbox uv lastUID = (None, w')
        \<and> events w' = events w @ [SaveState \<lparr>Name = mailbox, UIDValidity = uv,
              LastUID = lastUID, LastSync = timeNow env\<rparr>]
        \<and> mailbox_state (storage w') = (mailbox_state (storage w))(mailbox \<mapsto>
              \<lparr>uid_validity = uv, last_uid = lastUID, last_sync = timeNow env\<rparr>)"
  by (simp add: updateMailboxState_def SaveMailboxState_def dbExec_def Let_def)

lemma SyncMailbox_run:
  assumes "writerOk L"
    and "\<forall>k. ctxErr env k = None"
    and "\<forall>k. dbFault (storage w) k = None"
    and "SelectMailboxWithContext env mailbox = Inr selectData"
    and "sel_NumMessages selectData \<noteq> 0"
    and "SearchAllWithContext env = Inr uids"
    and "toSync = filterUIDs uids
           (startUIDOf (resolveState (storedState (storage w) mailbox) selectData))"
    and "toSync \<noteq> []"
    and "\<forall>c \<in> set (chunks5 toSync). \<exists>msgs. FetchMessagesWithContext env c = Inr msgs"
  shows "(\<exists>w'. SyncMailbox L env w mailbox =
                ((Some \<lparr>TotalMessages = int (length uids),
                         NewMessages = int (length toSync)\<rparr>, None), w')
            \<and> events w' = events w
                 @ concat (map (\<lambda>c. [Fetch c,
                      SaveBatch (map (convertToEmail (timeNow env) mailbox)
                        (projr (FetchMessagesWithContext env c)))]) (chunks5 toSync))
                 @ [SaveState \<lparr>Name = mailbox, UIDValidity = sel_UIDValidity selectData,
                      LastUID = last toSync, LastSync = timeNow env\<rparr>]
            \<and> mailbox_state (storage w') mailbox =
                 Some \<lparr>uid_validity = sel_UIDValidity selectData, last_uid = last toSync,
                       last_sync = timeNow env\<rparr>)
       \<and> concat (chunks5 toSync) = toSync
       \<and> (\<forall>k. Suc k < length (chunks5 toSync) \<longrightarrow> length (chunks5 toSync ! k) = 5)
       \<and> (\<forall>c \<in> set (chunks5 toSync). 0 < length c \<and> length c \<le> 5)"
proof -
  let ?st1 = "(storage w)\<lparr>dbCalls := Suc (dbCalls (storage w))\<rparr>"
  let ?w1 = "w\<lparr>storage := ?st1\<rparr>"
  have g: "GetMailboxState (storage w) mailbox = (Inr (storedState (storage w) mailbox), ?st1)"
    using assms(3) by (simp add: GetMailboxState_ok)
  have nf1: "\<forall>k. dbFault (storage ?w1) k = None" using assms(3) by simp
  have un: "uids \<noteq> []" using assms(7,8) by (auto simp: filterUIDs_filter)
  have ch0: "\<forall>c \<in> set (chunks5 (drop 0 toSync)). \<exists>msgs. FetchMessagesWithContext env c = Inr msgs"
    using assms(9) by simp
  from syncLoop_ok[OF assms(1,2) nf1 ch0, of mailbox]
  obtain w2 where l: "syncLoop L env mailbox toSync 0 ?w1 = (None, w2)"
    and e2: "events w2 = events ?w1 @ concat (map (\<lambda>c. [Fetch c,
                 SaveBatch (map (convertToEmail (timeNow env) mailbox)
                   (projr (FetchMessagesWithContext env c)))]) (chunks5 (drop 0 toSync)))"
    and m2: "mailbox_state (storage w2) = mailbox_state (storage ?w1)"
    and f2: "dbFault (storage w2) = dbFault (storage ?w1)"
    by blast
  have "dbFault (storage w2) (dbCalls (storage w2)) = None" using f2 nf1 by simp
  from updateMailboxState_ok[OF this, of env mailbox "sel_UIDValidity selectData" "last toSync"]
  obtain w3 where u: "updateMailboxState env w2 mailbox (sel_UIDValidity selectData) (last toSync)
                       = (None, w3)"
    and e3: "events w3 = events w2 @ [SaveState \<lparr>Name = mailbox,
               UIDValidity = sel_UIDValidity selectData, LastUID = last toSync,
               LastSync = timeNow env\<rparr>]"
    and m3: "mailbox_state (storage w3) = (mailbox_state (storage w2))(mailbox \<mapsto>
              \<lparr>uid_validity = sel_UIDValidity selectData, last_uid = last toSync,
               last_sync = timeNow env\<rparr>)"
    by blast
  have lst: "toSync ! (length toSync - 1) = last toSync"
    using assms(8) by (simp add: last_conv_nth)
  have run: "SyncMailbox L env w mailbox =
                ((Some \<lparr>TotalMessages = int (length uids),
                         NewMessages = int (length toSync)\<rparr>, None), w3)"
    unfolding SyncMailbox_def
    using assms(4,5,6,8) g un l u lst assms(7)[symmetric]
    by (simp add: Let_def)
  have ev: "events w3 = events w
                 @ concat (map (\<lambda>c. [Fetch c,
                      SaveBatch (map (convertToEmail (timeNow env) mailbox)
                        (projr (FetchMessagesWithContext env c)))]) (chunks5 toSync))
                 @ [SaveState \<lparr>Name = mailbox, UIDValidity = sel_UIDValidity selectData,
                      LastUID = last toSync, LastSync = timeNow env\<rparr>]"
    using e3 e2 by simp
  have ms: "mailbox_state (storage w3) mailbox =
                 Some \<lparr>uid_validity = sel_UIDValidity selectData, last_uid = last toSync,
                       last_sync = timeNow env\<rparr>"
    using m3 by simp
  show ?thesis
    using run ev ms chunks5_concat[of toSync] chunks5_full[of _ toSync] chunks5_sizes[of _ toSync]
    by blast
qed

text \<open>
  Claim C2. When the delta \<open>toSync\<close> is not empty, the context is not cancelled, every
  fetch succeeds and every save succeeds (no database statement fails and the writers
  of the library do not fail), \<open>SyncMailbox\<close> returns the stats
  \<open>{TotalMessages = len(uids), NewMessages = len(toSync)}\<close> without error; the calls it
  made are, in order, for each chunk of \<open>chunks5 toSync\<close> the fetch of that chunk and the
  save of its converted messages, and after all of them the save of the mailbox state with
  the selected \<open>uid_validity\<close> and \<open>last_uid\<close> the last element of \<open>toSync\<close>, which is then
  the state in the table. The chunks concatenate to \<open>toSync\<close>, every chunk but the last
  has exactly 5 UIDs, and no chunk is empty or longer than 5.
\<close>

theorem SyncMailbox_batches:
  assumes "writerOk L"
    and "\<forall>k. ctxErr env k = None"
    and "\<forall>k. dbFault (storage w) k = None"
    and "SelectMailboxWithContext env mailbox = Inr selectData"
    and "sel_NumMessages selectData \<noteq> 0"
    and "SearchAllWithContext env = Inr uids"
    and "toSync = filterUIDs uids
           (startUIDOf (resolveState (storedState (storage w) mailbox) selectData))"
    and "toSync \<noteq> []"
    and "\<forall>c \<in> set (chunks5 toSync). \<exists>msgs. FetchMessagesWithContext env c = Inr msgs"
  shows "(\<exists>w'. SyncMailbox L env w mailbox =
                ((Some \<lparr>TotalMessages = int (length uids),
                         NewMessages = int (length toSync)\<rparr>, None), w')
            \<and> events w' = events w
                 @ concat (map (\<lambda>c. [Fetch c,
                      SaveBatch (map (convertToEmail (timeNow env) mailbox)
                        (projr (FetchMessagesWithContext env c)))]) (chunks5 toSync))
                 @ [SaveState \<lparr>Name = mailbox, UIDValidity = sel_UIDValidity selectData,
                      LastUID = last toSync, LastSync = timeNow env\<rparr>]
            \<and> mailbox_state (storage w') mailbox =
                 Some \<lparr>uid_validity = sel_UIDValidity selectData, last_uid = last toSync,
                       last_sync = timeNow env\<rparr>)
       \<and> concat (chunks5 toSync) = toSync
       \<and> (\<forall>k. Suc k < length (chunks5 toSync) \<longrightarrow> length (chunks5 toSync ! k) = 5)
       \<and> (\<forall>c \<in> set (chunks5 toSync). 0 < length c \<and> length c \<le> 5)"
  using SyncMailbox_run[OF assms] .

lemma writerOk_demoLib: "writerOk demoLib"
  by (simp add: writerOk_def demoLib_def)

lemma demo_toSync: "filterUIDs [1, 2, 3, 4, 5, 6, 7, 8, 9]
           (startUIDOf (resolveState (storedState (storage (demoWorld [(''INBOX'',
              \<lparr>uid_validity = 1, last_uid = 3, last_sync = 0\<rparr>)])) ''INBOX'')
               \<lparr>sel_UIDValidity = 1, sel_NumMessages = 9\<rparr>)) = [4, 5, 6, 7, 8, 9]"
  by (simp add: filterUIDs_filter startUIDOf_def resolveState_def storedState_def demoWorld_def
      word_le_nat_alt)

lemma demo_chunks: "chunks5 [4, 5, 6, 7, 8, 9 :: u32] = [[4, 5, 6, 7, 8], [9]]"
  by (simp add: chunks5_unfold)

theorem SyncMailbox_batches_witness:
  "\<exists>w'. SyncMailbox demoLib (demoServer 1 9 [1, 2, 3, 4, 5, 6, 7, 8, 9])
           (demoWorld [(''INBOX'', \<lparr>uid_validity = 1, last_uid = 3, last_sync = 0\<rparr>)]) ''INBOX''
         = ((Some \<lparr>TotalMessages = 9, NewMessages = 6\<rparr>, None), w')
       \<and> events w' =
           [Fetch [4, 5, 6, 7, 8], SaveBatch (map (convertToEmail 1700000000 ''INBOX'')
                                      (map demoMessage [4, 5, 6, 7, 8])),
            Fetch [9], SaveBatch (map (convertToEmail 1700000000 ''INBOX'') (map demoMessage [9])),
            SaveState \<lparr>Name = ''INBOX'', UIDValidity = 1, LastUID = 9, LastSync = 1700000000\<rparr>]
       \<and> mailbox_state (storage w') ''INBOX'' =
           Some \<lparr>uid_validity = 1, last_uid = 9, last_sync = 1700000000\<rparr>"
proof -
  let ?env = "demoServer 1 9 [1, 2, 3, 4, 5, 6, 7, 8, 9]"
  let ?w = "demoWorld [(''INBOX'', \<lparr>uid_validity = 1, last_uid = 3, last_sync = 0\<rparr>)]"
  have h2: "\<forall>k. ctxErr ?env k = None" by (simp add: demoServer_def)
  have h3: "\<forall>k. dbFault (storage ?w) k = None" by (simp add: demoWorld_def)
  have h4: "SelectMailboxWithContext ?env ''INBOX'' = Inr \<lparr>sel_UIDValidity = 1, sel_NumMessages = 9\<rparr>"
    by (simp add: demoServer_def)
  have h5: "sel_NumMessages \<lparr>sel_UIDValidity = 1, sel_NumMessages = 9\<rparr> \<noteq> 0" by simp
  have h6: "SearchAllWithContext ?env = Inr [1, 2, 3, 4, 5, 6, 7, 8, 9]" by (simp add: demoServer_def)
  have h7: "[4, 5, 6, 7, 8, 9] = filterUIDs [1, 2, 3, 4, 5, 6, 7, 8, 9]
           (startUIDOf (resolveState (storedState (storage ?w) ''INBOX'')
               \<lparr>sel_UIDValidity = 1, sel_NumMessages = 9\<rparr>))"
    using demo_toSync by simp
  have h8: "[4, 5, 6, 7, 8, 9] \<noteq> ([] :: u32 list)" by simp
  have h9: "\<forall>c \<in> set (chunks5 [4, 5, 6, 7, 8, 9 :: u32]).
              \<exists>msgs. FetchMessagesWithContext ?env c = Inr msgs"
    by (simp add: demoServer_def)
  have fe: "FetchMessagesWithContext ?env c = Inr (map demoMessage c)" for c
    by (simp add: demoServer_def)
  have tn: "timeNow ?env = 1700000000" by (simp add: demoServer_def)
  have ev0: "events ?w = []" by (simp add: demoWorld_def)
  from SyncMailbox_batches[OF writerOk_demoLib h2 h3 h4 h5 h6 h7 h8 h9]
  show ?thesis
    unfolding demo_chunks fe tn ev0 by simp
qed

lemma syncBatch_keeps:
  "syncBatch L env mailbox uids w = (r, w') \<Longrightarrow>
     mailbox_state (storage w') = mailbox_state (storage w)"
  unfolding syncBatch_def ctxPoll_def Let_def
  by (auto split: option.splits sum.splits prod.splits dest!: SaveEmailBatch_keeps)

lemma syncLoop_keeps:
  "syncLoop L env mailbox xs i w = (r, w') \<Longrightarrow>
     mailbox_state (storage w') = mailbox_state (storage w)"
proof (induction L env mailbox xs i w arbitrary: r w' rule: syncLoop.induct)
  case (1 L env mailbox xs i w)
  show ?case
  proof (cases "i < length xs")
    case False
    then show ?thesis using "1.prems" by (simp add: syncLoop.simps[of L env mailbox xs i w])
  next
    case True
    obtain p w1 where p: "ctxPoll env w = (p, w1)" by (cases "ctxPoll env w")
    then have s1: "storage w1 = storage w" by (auto simp: ctxPoll_def)
    show ?thesis
    proof (cases p)
      case (Some cerr)
      then show ?thesis using "1.prems" True p s1
        by (simp add: syncLoop.simps[of L env mailbox xs i w])
    next
      case None
      let ?b = "take ((if i + batchSize > length xs then length xs else i + batchSize) - i)
                  (drop i xs)"
      obtain b w2 where b: "syncBatch L env mailbox ?b w1 = (b, w2)"
        by (cases "syncBatch L env mailbox ?b w1")
      then have m2: "mailbox_state (storage w2) = mailbox_state (storage w)"
        using syncBatch_keeps s1 by metis
      show ?thesis
      proof (cases b)
        case bn: None
        then have "syncLoop L env mailbox xs (i + batchSize) w2 = (r, w')"
          using "1.prems" True p None b by (simp add: syncLoop.simps[of L env mailbox xs i w])
        from "1.IH"[OF True p[symmetric] None b[symmetric] bn this] m2
        show ?thesis by simp
      next
        case (Some err)
        obtain q w3 where q: "ctxPoll env w2 = (q, w3)" by (cases "ctxPoll env w2")
        then have "storage w3 = storage w2" by (auto simp: ctxPoll_def)
        then show ?thesis using "1.prems" True p None b Some q m2
          by (auto simp: syncLoop.simps[of L env mailbox xs i w] split: option.splits)
      qed
    qed
  qed
qed

lemma updateMailboxState_result:
  "updateMailboxState env w mailbox uv l = (None, w') \<Longrightarrow>
     mailbox_state (storage w') = (mailbox_state (storage w))(mailbox \<mapsto>
        \<lparr>uid_validity = uv, last_uid = l, last_sync = timeNow env\<rparr>)"
  by (auto simp: updateMailboxState_def SaveMailboxState_def dbExec_def Let_def
      split: option.splits prod.splits)

lemma word_succ_le: "(x::u32) \<noteq> - 1 \<Longrightarrow> x + 1 \<le> u \<Longrightarrow> x \<le> u"
  by (meson inc_less_eq_triv_imp nle_le order.trans)

lemma SyncMailbox_watermark_nonempty:
  assumes "mailbox_state (storage w) mailbox = Some row"
    and "SelectMailboxWithContext env mailbox = Inr selectData"
    and "uid_validity row = sel_UIDValidity selectData"
    and "SyncMailbox L env w mailbox = ((stats, None), w')"
    and "sel_NumMessages selectData \<noteq> 0"
    and "SearchAllWithContext env \<noteq> Inr []"
    and "last_uid row \<noteq> - 1"
  shows "\<exists>row'. mailbox_state (storage w') mailbox = Some row'
            \<and> uid_validity row' = uid_validity row \<and> last_uid row \<le> last_uid row'"
proof -
  let ?st1 = "(storage w)\<lparr>dbCalls := Suc (dbCalls (storage w))\<rparr>"
  let ?w1 = "w\<lparr>storage := ?st1\<rparr>"
  let ?s = "\<lparr>Name = mailbox, UIDValidity = uid_validity row, LastUID = last_uid row,
            LastSync = last_sync row\<rparr>"
  have ss: "storedState (storage w) mailbox = Some ?s"
    using assms(1) by (simp add: storedState_def)
  have nf: "dbFault (storage w) (dbCalls (storage w)) = None"
  proof (rule ccontr)
    assume "dbFault (storage w) (dbCalls (storage w)) \<noteq> None"
    then obtain e where "dbFault (storage w) (dbCalls (storage w)) = Some e" by auto
    then have "snd (fst (SyncMailbox L env w mailbox)) \<noteq> None"
      using assms(2) by (simp add: SyncMailbox_def GetMailboxState_def dbExec_def)
    then show False using assms(4) by simp
  qed
  have g: "GetMailboxState (storage w) mailbox = (Inr (Some ?s), ?st1)"
    using GetMailboxState_ok[OF nf, of mailbox] ss by simp
  have rs: "resolveState (Some ?s) selectData = Some ?s"
    using assms(3) by (simp add: resolveState_def)
  have su: "startUIDOf (Some ?s) = last_uid row + 1" by (simp add: startUIDOf_def)
  obtain uids where se: "SearchAllWithContext env = Inr uids"
  proof (cases "SearchAllWithContext env")
    case (Inl e)
    then have "snd (fst (SyncMailbox L env w mailbox)) \<noteq> None"
      using assms(2,5) g by (simp add: SyncMailbox_def Let_def)
    then show ?thesis using assms(4) by simp
  next
    case (Inr uids)
    then show ?thesis using that by blast
  qed
  have un: "length uids \<noteq> 0" using se assms(6) by auto
  let ?toSync = "filterUIDs uids (last_uid row + 1)"
  show ?thesis
  proof (cases "length ?toSync = 0")
    case True
    then have "SyncMailbox L env w mailbox =
                 ((Some \<lparr>TotalMessages = int (length uids), NewMessages = 0\<rparr>, None), ?w1)"
      using assms(2,5) g rs su se un by (simp add: SyncMailbox_def Let_def)
    then have "w' = ?w1" using assms(4) by simp
    then show ?thesis using assms(1) by simp
  next
    case False
    obtain r2 w2 where l: "syncLoop L env mailbox ?toSync 0 ?w1 = (r2, w2)"
      by (cases "syncLoop L env mailbox ?toSync 0 ?w1")
    then have m2: "mailbox_state (storage w2) = mailbox_state (storage w)"
      using syncLoop_keeps by fastforce
    obtain r3 w3 where u: "updateMailboxState env w2 mailbox (sel_UIDValidity selectData)
                             (?toSync ! (length ?toSync - 1)) = (r3, w3)"
      by (cases "updateMailboxState env w2 mailbox (sel_UIDValidity selectData)
                             (?toSync ! (length ?toSync - 1))")
    have r2n: "r2 = None"
    proof (cases r2)
      case None
      then show ?thesis .
    next
      case (Some err)
      then have "SyncMailbox L env w mailbox = ((None, Some err), w2)"
        using assms(2,5) g rs su se un False l by (simp add: SyncMailbox_def Let_def)
      then show ?thesis using assms(4) by simp
    qed
    have run: "SyncMailbox L env w mailbox =
                 ((Some \<lparr>TotalMessages = int (length uids),
                          NewMessages = int (length ?toSync)\<rparr>, r3), w3)"
      using assms(2,5) g rs su se un False l[unfolded r2n] u
      by (simp add: SyncMailbox_def Let_def)
    have r3n: "r3 = None" and w3: "w' = w3" using run assms(4) by auto
    have m3: "mailbox_state (storage w3) mailbox =
                Some \<lparr>uid_validity = sel_UIDValidity selectData,
                      last_uid = ?toSync ! (length ?toSync - 1), last_sync = timeNow env\<rparr>"
      using updateMailboxState_result[OF u[unfolded r3n]] by simp
    have "?toSync ! (length ?toSync - 1) \<in> set ?toSync" using False by simp
    then have "last_uid row + 1 \<le> ?toSync ! (length ?toSync - 1)"
      by (simp add: filterUIDs_filter)
    then have "last_uid row \<le> ?toSync ! (length ?toSync - 1)"
      using assms(7) word_succ_le by blast
    then show ?thesis using m3 w3 assms(3) by simp
  qed
qed

lemma SyncMailbox_get_ok:
  assumes "SelectMailboxWithContext env mailbox = Inr selectData"
    and "SyncMailbox L env w mailbox = ((stats, None), w')"
  shows "dbFault (storage w) (dbCalls (storage w)) = None"
proof (rule ccontr)
  assume "dbFault (storage w) (dbCalls (storage w)) \<noteq> None"
  then obtain e where "dbFault (storage w) (dbCalls (storage w)) = Some e" by auto
  then have "snd (fst (SyncMailbox L env w mailbox)) \<noteq> None"
    using assms(1) by (simp add: SyncMailbox_def GetMailboxState_def dbExec_def)
  then show False using assms(2) by simp
qed

lemma SyncMailbox_empty:
  assumes "SelectMailboxWithContext env mailbox = Inr selectData"
    and "dbFault (storage w) (dbCalls (storage w)) = None"
    and "sel_NumMessages selectData = 0 \<or> SearchAllWithContext env = Inr []"
  shows "SyncMailbox L env w mailbox =
           emptyMailbox env (w\<lparr>storage := (storage w)\<lparr>dbCalls := Suc (dbCalls (storage w))\<rparr>\<rparr>)
             mailbox selectData"
  using assms GetMailboxState_ok[OF assms(2), of mailbox]
  by (auto simp: SyncMailbox_def Let_def)

lemma emptyMailbox_result:
  assumes "emptyMailbox env w1 mailbox selectData = ((stats, err), w')"
  shows "stats = Some \<lparr>TotalMessages = 0, NewMessages = 0\<rparr>
       \<and> (err = None \<longrightarrow> mailbox_state (storage w') = (mailbox_state (storage w1))(mailbox \<mapsto>
             \<lparr>uid_validity = sel_UIDValidity selectData, last_uid = 0,
              last_sync = timeNow env\<rparr>))"
proof -
  obtain r w2 where u: "updateMailboxState env w1 mailbox (sel_UIDValidity selectData) 0 = (r, w2)"
    by (cases "updateMailboxState env w1 mailbox (sel_UIDValidity selectData) 0")
  then have e: "stats = Some \<lparr>TotalMessages = 0, NewMessages = 0\<rparr>" "err = r" "w' = w2"
    using assms by (simp_all add: emptyMailbox_def)
  show ?thesis using e u updateMailboxState_result[of env w1 mailbox _ 0 w2] by auto
qed

lemma SyncMailbox_delta_empty:
  assumes "SelectMailboxWithContext env mailbox = Inr selectData"
    and "dbFault (storage w) (dbCalls (storage w)) = None"
    and "sel_NumMessages selectData \<noteq> 0"
    and "SearchAllWithContext env = Inr uids"
    and "uids \<noteq> []"
    and "filterUIDs uids
           (startUIDOf (resolveState (storedState (storage w) mailbox) selectData)) = []"
  shows "SyncMailbox L env w mailbox =
           ((Some \<lparr>TotalMessages = int (length uids), NewMessages = 0\<rparr>, None),
            w\<lparr>storage := (storage w)\<lparr>dbCalls := Suc (dbCalls (storage w))\<rparr>\<rparr>)"
  using assms GetMailboxState_ok[OF assms(2), of mailbox]
  by (simp add: SyncMailbox_def Let_def)

lemma startUIDOf_resolve:
  "startUIDOf (resolveState stored selectData) =
     (case stored of
        Some s \<Rightarrow> if UIDValidity s = sel_UIDValidity selectData then LastUID s + 1 else 1
      | None \<Rightarrow> 1)"
  by (simp add: startUIDOf_def resolveState_def split: option.splits)

text \<open>
  Claim C3. After SELECT and the read of the stored state: the start UID is the stored
  \<open>last_uid\<close> plus one (in \<open>uint32\<close>, as the code adds) when a stored state exists with
  the selected \<open>uid_validity\<close>, and 1 otherwise (no stored state, or another
  \<open>uid_validity\<close>); the delta is exactly the sublist of the search result with the UIDs at
  or above the start UID, in the server's order; and when the delta step is reached (SELECT
  reports messages and the search returned UIDs) with an empty delta, \<open>SyncMailbox\<close>
  returns \<open>{TotalMessages = len(uids), NewMessages = 0}\<close> without error and writes no
  mailbox state: the tables and the record of calls are those before the call, only the
  count of database statements has advanced by the one read.
\<close>

theorem SyncMailbox_delta:
  assumes "SelectMailboxWithContext env mailbox = Inr selectData"
    and "dbFault (storage w) (dbCalls (storage w)) = None"
  shows "startUIDOf (resolveState stored selectData) =
           (case stored of
              Some s \<Rightarrow> if UIDValidity s = sel_UIDValidity selectData then LastUID s + 1 else 1
            | None \<Rightarrow> 1)
       \<and> filterUIDs uids startUID = filter (\<lambda>uid. startUID \<le> uid) uids
       \<and> (sel_NumMessages selectData \<noteq> 0 \<and> SearchAllWithContext env = Inr uids \<and> uids \<noteq> [] \<and>
          filterUIDs uids
            (startUIDOf (resolveState (storedState (storage w) mailbox) selectData)) = [] \<longrightarrow>
          SyncMailbox L env w mailbox =
            ((Some \<lparr>TotalMessages = int (length uids), NewMessages = 0\<rparr>, None),
             w\<lparr>storage := (storage w)\<lparr>dbCalls := Suc (dbCalls (storage w))\<rparr>\<rparr>))"
proof -
  have c: "sel_NumMessages selectData \<noteq> 0 \<and> SearchAllWithContext env = Inr uids \<and> uids \<noteq> [] \<and>
          filterUIDs uids
            (startUIDOf (resolveState (storedState (storage w) mailbox) selectData)) = [] \<longrightarrow>
          SyncMailbox L env w mailbox =
            ((Some \<lparr>TotalMessages = int (length uids), NewMessages = 0\<rparr>, None),
             w\<lparr>storage := (storage w)\<lparr>dbCalls := Suc (dbCalls (storage w))\<rparr>\<rparr>)"
    using SyncMailbox_delta_empty[OF assms] by blast
  show ?thesis using startUIDOf_resolve[of stored selectData] filterUIDs_filter[of uids startUID] c
    by blast
qed

lemma updateMailboxState_other:
  "updateMailboxState env w mailbox uv l = (r, w') \<Longrightarrow> m \<noteq> mailbox \<Longrightarrow>
     mailbox_state (storage w') m = mailbox_state (storage w) m"
  by (auto simp: updateMailboxState_def SaveMailboxState_def dbExec_def Let_def
      split: option.splits prod.splits)

lemma GetMailboxState_keeps:
  "GetMailboxState st mailbox = (g, st') \<Longrightarrow> mailbox_state st' = mailbox_state st"
  by (auto simp: GetMailboxState_def dbExec_def split: option.splits prod.splits)

lemma emptyMailbox_other:
  "emptyMailbox env w1 mailbox selectData = (res, w') \<Longrightarrow> m \<noteq> mailbox \<Longrightarrow>
     mailbox_state (storage w') m = mailbox_state (storage w1) m"
  by (auto simp: emptyMailbox_def split: prod.splits dest: updateMailboxState_other)

lemma SyncMailbox_other:
  assumes "SyncMailbox L env w mailbox = (res, w')" and "m \<noteq> mailbox"
  shows "mailbox_state (storage w') m = mailbox_state (storage w) m"
proof (cases "SelectMailboxWithContext env mailbox")
  case (Inl err)
  then show ?thesis using assms by (simp add: SyncMailbox_def)
next
  case (Inr selectData)
  obtain g st where g: "GetMailboxState (storage w) mailbox = (g, st)"
    by (cases "GetMailboxState (storage w) mailbox")
  then have k: "mailbox_state st = mailbox_state (storage w)"
    by (rule GetMailboxState_keeps)
  let ?w1 = "w\<lparr>storage := st\<rparr>"
  have k1: "mailbox_state (storage ?w1) = mailbox_state (storage w)" using k by simp
  show ?thesis
  proof (cases g)
    case (Inl err)
    then show ?thesis using assms Inr g k by (auto simp: SyncMailbox_def)
  next
    case stored: (Inr stored)
    show ?thesis
    proof (cases "sel_NumMessages selectData = 0")
      case True
      then have "emptyMailbox env ?w1 mailbox selectData = (res, w')"
        using assms(1) Inr g stored by (simp add: SyncMailbox_def Let_def)
      then show ?thesis using emptyMailbox_other[OF _ assms(2)] k1 by metis
    next
      case nz: False
      show ?thesis
      proof (cases "SearchAllWithContext env")
        case (Inl err)
        then show ?thesis using assms(1) Inr g stored nz k
          by (auto simp: SyncMailbox_def Let_def)
      next
        case uids: (Inr uids)
        show ?thesis
        proof (cases "length uids = 0")
          case True
          then have "emptyMailbox env ?w1 mailbox selectData = (res, w')"
            using assms(1) Inr g stored nz uids by (simp add: SyncMailbox_def Let_def)
          then show ?thesis using emptyMailbox_other[OF _ assms(2)] k1 by metis
        next
          case un: False
          let ?toSync = "filterUIDs uids (startUIDOf (resolveState stored selectData))"
          show ?thesis
          proof (cases "length ?toSync = 0")
            case True
            then have "w' = ?w1"
              using assms(1) Inr g stored nz uids un by (simp add: SyncMailbox_def Let_def)
            then show ?thesis using k by simp
          next
            case False
            obtain r2 w2 where l: "syncLoop L env mailbox ?toSync 0 ?w1 = (r2, w2)"
              by (cases "syncLoop L env mailbox ?toSync 0 ?w1")
            then have m2: "mailbox_state (storage w2) = mailbox_state (storage w)"
              using syncLoop_keeps k1 by metis
            show ?thesis
            proof (cases r2)
              case (Some err)
              then have "w' = w2"
                using assms(1) Inr g stored nz uids un False l
                by (simp add: SyncMailbox_def Let_def)
              then show ?thesis using m2 by simp
            next
              case None
              obtain r3 w3 where u: "updateMailboxState env w2 mailbox
                  (sel_UIDValidity selectData) (?toSync ! (length ?toSync - 1)) = (r3, w3)"
                by (cases "updateMailboxState env w2 mailbox
                  (sel_UIDValidity selectData) (?toSync ! (length ?toSync - 1))")
              then have "w' = w3"
                using assms(1) Inr g stored nz uids un False l None
                by (simp add: SyncMailbox_def Let_def)
              then show ?thesis using updateMailboxState_other[OF u assms(2)] m2 by simp
            qed
          qed
        qed
      qed
    qed
  qed
qed

text \<open>
  Claim C1, amended. For a successful \<open>SyncMailbox\<close> on a mailbox whose stored state has
  the \<open>uid_validity\<close> that SELECT reports: when the server reports the mailbox as not
  empty (a message count other than 0 and a search result that is not empty) and the
  stored \<open>last_uid\<close> is below the largest \<open>uint32\<close>, the state stored after the call has
  the same \<open>uid_validity\<close> and a \<open>last_uid\<close> that is not lower; when the server reports the
  mailbox as empty, the state stored after the call has \<open>last_uid = 0\<close>. The call leaves
  the stored state of every other mailbox as it was, so the calls of a sequence that
  concern other mailboxes do not move this watermark.
\<close>

theorem SyncMailbox_watermark:
  assumes "mailbox_state (storage w) mailbox = Some row"
    and "SelectMailboxWithContext env mailbox = Inr selectData"
    and "uid_validity row = sel_UIDValidity selectData"
    and "SyncMailbox L env w mailbox = ((stats, None), w')"
  shows "(sel_NumMessages selectData \<noteq> 0 \<and> SearchAllWithContext env \<noteq> Inr [] \<and>
          last_uid row \<noteq> - 1 \<longrightarrow>
            (\<exists>row'. mailbox_state (storage w') mailbox = Some row'
               \<and> uid_validity row' = uid_validity row \<and> last_uid row \<le> last_uid row'))
       \<and> (sel_NumMessages selectData = 0 \<or> SearchAllWithContext env = Inr [] \<longrightarrow>
            mailbox_state (storage w') mailbox =
              Some \<lparr>uid_validity = uid_validity row, last_uid = 0, last_sync = timeNow env\<rparr>)
       \<and> (\<forall>m. m \<noteq> mailbox \<longrightarrow> mailbox_state (storage w') m = mailbox_state (storage w) m)"
proof -
  have nf: "dbFault (storage w) (dbCalls (storage w)) = None"
    using SyncMailbox_get_ok[OF assms(2,4)] .
  have o: "\<forall>m. m \<noteq> mailbox \<longrightarrow> mailbox_state (storage w') m = mailbox_state (storage w) m"
    using SyncMailbox_other[OF assms(4)] by blast
  have b: "sel_NumMessages selectData = 0 \<or> SearchAllWithContext env = Inr [] \<longrightarrow>
            mailbox_state (storage w') mailbox =
              Some \<lparr>uid_validity = uid_validity row, last_uid = 0, last_sync = timeNow env\<rparr>"
  proof
    assume h: "sel_NumMessages selectData = 0 \<or> SearchAllWithContext env = Inr []"
    have "emptyMailbox env (w\<lparr>storage := (storage w)\<lparr>dbCalls := Suc (dbCalls (storage w))\<rparr>\<rparr>)
            mailbox selectData = ((stats, None), w')"
      using SyncMailbox_empty[OF assms(2) nf h, of L] assms(4) by simp
    from emptyMailbox_result[OF this] assms(3)
    show "mailbox_state (storage w') mailbox =
              Some \<lparr>uid_validity = uid_validity row, last_uid = 0, last_sync = timeNow env\<rparr>"
      by simp
  qed
  show ?thesis using SyncMailbox_watermark_nonempty[OF assms(1,2,3,4)] b o by blast
qed

theorem SyncMailbox_delta_witness:
  "SyncMailbox demoLib (demoServer 1 3 [1, 2, 3])
     (demoWorld [(''INBOX'', \<lparr>uid_validity = 1, last_uid = 3, last_sync = 0\<rparr>)]) ''INBOX''
   = ((Some \<lparr>TotalMessages = 3, NewMessages = 0\<rparr>, None),
      (demoWorld [(''INBOX'', \<lparr>uid_validity = 1, last_uid = 3, last_sync = 0\<rparr>)])
        \<lparr>storage := (storage (demoWorld [(''INBOX'',
             \<lparr>uid_validity = 1, last_uid = 3, last_sync = 0\<rparr>)]))\<lparr>dbCalls := 1\<rparr>\<rparr>)"
proof -
  let ?env = "demoServer 1 3 [1, 2, 3]"
  let ?w = "demoWorld [(''INBOX'', \<lparr>uid_validity = 1, last_uid = 3, last_sync = 0\<rparr>)]"
  let ?sel = "\<lparr>sel_UIDValidity = 1, sel_NumMessages = 3\<rparr>"
  have h1: "SelectMailboxWithContext ?env ''INBOX'' = Inr ?sel" by (simp add: demoServer_def)
  have h2: "dbFault (storage ?w) (dbCalls (storage ?w)) = None" by (simp add: demoWorld_def)
  have h3: "sel_NumMessages ?sel \<noteq> 0 \<and> SearchAllWithContext ?env = Inr [1, 2, 3] \<and>
            [1, 2, 3] \<noteq> ([] :: u32 list) \<and>
            filterUIDs [1, 2, 3]
              (startUIDOf (resolveState (storedState (storage ?w) ''INBOX'') ?sel)) = []"
    by (simp add: demoServer_def filterUIDs_filter startUIDOf_def resolveState_def
        storedState_def demoWorld_def word_le_nat_alt)
  have d: "dbCalls (storage ?w) = 0" by (simp add: demoWorld_def)
  from SyncMailbox_delta[OF h1 h2, of None "[1, 2, 3]" 1 demoLib] h3
  show ?thesis unfolding d by simp
qed

theorem SyncMailbox_watermark_counterexample:
  "mailbox_state
     (storage (demoWorld [(''INBOX'', \<lparr>uid_validity = 1, last_uid = 3, last_sync = 0\<rparr>)]))
     ''INBOX'' = Some \<lparr>uid_validity = 1, last_uid = 3, last_sync = 0\<rparr>
   \<and> SelectMailboxWithContext (demoServer 1 0 []) ''INBOX'' =
        Inr \<lparr>sel_UIDValidity = 1, sel_NumMessages = 0\<rparr>
   \<and> fst (SyncMailbox demoLib (demoServer 1 0 [])
        (demoWorld [(''INBOX'', \<lparr>uid_validity = 1, last_uid = 3, last_sync = 0\<rparr>)]) ''INBOX'') =
        (Some \<lparr>TotalMessages = 0, NewMessages = 0\<rparr>, None)
   \<and> mailbox_state
        (storage (snd (SyncMailbox demoLib (demoServer 1 0 [])
           (demoWorld [(''INBOX'', \<lparr>uid_validity = 1, last_uid = 3, last_sync = 0\<rparr>)])
           ''INBOX''))) ''INBOX'' =
        Some \<lparr>uid_validity = 1, last_uid = 0, last_sync = 1700000000\<rparr>
   \<and> \<not> (3 :: u32) \<le> 0"
  by (simp add: SyncMailbox_def demoServer_def demoWorld_def emptyMailbox_def
      updateMailboxState_def SaveMailboxState_def GetMailboxState_def dbExec_def Let_def)

theorem SyncMailbox_watermark_witness:
  "\<exists>row'. mailbox_state
       (storage (snd (SyncMailbox demoLib (demoServer 1 9 [1, 2, 3, 4, 5, 6, 7, 8, 9])
          (demoWorld [(''INBOX'', \<lparr>uid_validity = 1, last_uid = 3, last_sync = 0\<rparr>)])
          ''INBOX''))) ''INBOX'' = Some row'
     \<and> uid_validity row' = 1 \<and> 3 \<le> last_uid row'"
proof -
  let ?env = "demoServer 1 9 [1, 2, 3, 4, 5, 6, 7, 8, 9]"
  let ?w = "demoWorld [(''INBOX'', \<lparr>uid_validity = 1, last_uid = 3, last_sync = 0\<rparr>)]"
  let ?row = "\<lparr>uid_validity = 1, last_uid = 3, last_sync = 0\<rparr>"
  let ?sel = "\<lparr>sel_UIDValidity = 1, sel_NumMessages = 9\<rparr>"
  have h2: "\<forall>k. ctxErr ?env k = None" by (simp add: demoServer_def)
  have h3: "\<forall>k. dbFault (storage ?w) k = None" by (simp add: demoWorld_def)
  have h4: "SelectMailboxWithContext ?env ''INBOX'' = Inr ?sel" by (simp add: demoServer_def)
  have h5: "sel_NumMessages ?sel \<noteq> 0" by simp
  have h6: "SearchAllWithContext ?env = Inr [1, 2, 3, 4, 5, 6, 7, 8, 9]"
    by (simp add: demoServer_def)
  have h7: "[4, 5, 6, 7, 8, 9] = filterUIDs [1, 2, 3, 4, 5, 6, 7, 8, 9]
           (startUIDOf (resolveState (storedState (storage ?w) ''INBOX'') ?sel))"
    using demo_toSync by simp
  have h8: "[4, 5, 6, 7, 8, 9] \<noteq> ([] :: u32 list)" by simp
  have h9: "\<forall>c \<in> set (chunks5 [4, 5, 6, 7, 8, 9 :: u32]).
              \<exists>msgs. FetchMessagesWithContext ?env c = Inr msgs"
    by (simp add: demoServer_def)
  from SyncMailbox_run[OF writerOk_demoLib h2 h3 h4 h5 h6 h7 h8 h9]
  obtain w' where run: "SyncMailbox demoLib ?env ?w ''INBOX'' =
      ((Some \<lparr>TotalMessages = int (length [1, 2, 3, 4, 5, 6, 7, 8, 9 :: u32]),
               NewMessages = int (length [4, 5, 6, 7, 8, 9 :: u32])\<rparr>, None), w')"
    by blast
  have a1: "mailbox_state (storage ?w) ''INBOX'' = Some ?row" by (simp add: demoWorld_def)
  have a3: "uid_validity ?row = sel_UIDValidity ?sel" by simp
  have c: "sel_NumMessages ?sel \<noteq> 0 \<and> SearchAllWithContext ?env \<noteq> Inr [] \<and>
           last_uid ?row \<noteq> - 1"
    using h6 by simp
  from SyncMailbox_watermark[OF a1 h4 a3 run] c
  have "\<exists>row'. mailbox_state (storage w') ''INBOX'' = Some row'
          \<and> uid_validity row' = uid_validity ?row \<and> last_uid ?row \<le> last_uid row'"
    by blast
  then show ?thesis using run by simp
qed

end
